theory Spec2Isabelle
  imports Complex_Main "HOL-Library.Log_Nat"
begin

section \<open>Strings and numbers of the source language\<close>

text \<open>
  The program is JavaScript. Its strings are modelled as \<^typ>\<open>string\<close> restricted to
  ASCII: \<open>toUpperCase\<close>, \<open>toLowerCase\<close> and \<open>trim\<close> act on the ASCII letters and
  the ASCII white space only. Counters are integers and amounts of money are numbers: the
  one call site of \<open>addCoupon\<close> reads \<open>value\<close> from a chat-command option of type
  Number and \<open>maxUses\<close> from one of type Integer, so \<open>NaN\<close> and the infinities are
  outside the model. A number is given by its exact value, a rational; the arithmetic of
  the pricing function is that of binary64 doubles, each result rounded by \<open>toDouble\<close>
  below. An absent, \<open>null\<close> or \<open>undefined\<close> value is \<open>None\<close>.
\<close>

definition lowerLetters :: string where
  "lowerLetters = ''abcdefghijklmnopqrstuvwxyz''"

definition upperLetters :: string where
  "upperLetters = ''ABCDEFGHIJKLMNOPQRSTUVWXYZ''"

definition toUpperChar :: "char \<Rightarrow> char" where
  "toUpperChar c = (case map_of (zip lowerLetters upperLetters) c of Some u \<Rightarrow> u | None \<Rightarrow> c)"

definition toLowerChar :: "char \<Rightarrow> char" where
  "toLowerChar c = (case map_of (zip upperLetters lowerLetters) c of Some l \<Rightarrow> l | None \<Rightarrow> c)"

definition toUpperCase :: "string \<Rightarrow> string" where
  "toUpperCase s = map toUpperChar s"

definition toLowerCase :: "string \<Rightarrow> string" where
  "toLowerCase s = map toLowerChar s"

definition isWhiteSpace :: "char \<Rightarrow> bool" where
  "isWhiteSpace c = (c \<in> set [CHR '' '', CHR 0x09, CHR 0x0A, CHR 0x0B, CHR 0x0C, CHR 0x0D])"

definition trim :: "string \<Rightarrow> string" where
  "trim s = rev (dropWhile isWhiteSpace (rev (dropWhile isWhiteSpace s)))"

text \<open>Truthiness of an optional string: \<open>undefined\<close>, \<open>null\<close> and \<open>""\<close> are falsy.\<close>

definition truthy :: "string option \<Rightarrow> bool" where
  "truthy v = (case v of None \<Rightarrow> False | Some s \<Rightarrow> s \<noteq> [])"

text \<open>\<open>a || b\<close> on optional strings, with \<open>x || null\<close> as \<open>orElse x None\<close>.\<close>

definition orElse :: "string option \<Rightarrow> string option \<Rightarrow> string option" where
  "orElse a b = (if truthy a then a else b)"

subsection \<open>Binary64 numbers\<close>

text \<open>
  \<open>toDouble x\<close> is the double nearest to \<open>x\<close>, a tie going to the even mantissa:
  with \<open>2 ^ e \<le> |x| < 2 ^ (e + 1)\<close> the doubles around \<open>x\<close> are the multiples of
  \<open>2 ^ (e - 52)\<close>. It is what \<open>Number(..)\<close> and every arithmetic operation return
  for the exact result \<open>x\<close>, and it leaves a double as it is. The exponent is not
  bounded: in the pricing function no intermediate value exceeds the amount in magnitude,
  so nothing overflows, and a value below the normal range prints as \<open>0.00\<close> with or
  without the bound.
\<close>

definition pow2 :: "int \<Rightarrow> rat" where
  "pow2 e = 2 powi e"

definition roundEven :: "rat \<Rightarrow> int" where
  "roundEven y =
     (let f = \<lfloor>y\<rfloor>; r = y - of_int f in
      if r < 1 / 2 then f else if 1 / 2 < r then f + 1 else if even f then f else f + 1)"

text \<open>The exponent \<open>e\<close> of a positive number, from the bit lengths of its numerator and denominator.\<close>

definition exponentOf :: "rat \<Rightarrow> int" where
  "exponentOf x =
     (let (p, q) = quotient_of x; e0 = bitlen p - bitlen q in
      if pow2 e0 \<le> x then e0 else e0 - 1)"

definition toDouble :: "rat \<Rightarrow> rat" where
  "toDouble x =
     (if x = 0 then 0
      else let k = exponentOf \<bar>x\<bar> - 52 in
           sgn x * (of_int (roundEven (\<bar>x\<bar> / pow2 k)) * pow2 k))"

text \<open>
  \<open>x.toFixed(2)\<close> prints \<open>n / 100\<close> for the integer \<open>n\<close> nearest to \<open>100 x\<close>, taken
  on the exact value of the double \<open>x\<close>, the larger \<open>n\<close> at a tie for the
  absolute value, the sign put back. \<open>centsOf\<close> is that \<open>n\<close>, \<open>toFixedText\<close> the
  decimal printed and \<open>toFixed2\<close> is \<open>Number(x.toFixed(2))\<close>, the double read back from it.
  (From \<open>1e21\<close> on \<open>toFixed\<close> prints the number itself, an integer, as the model does.)
\<close>

definition centsOf :: "rat \<Rightarrow> int" where
  "centsOf x = (if x < 0 then - \<lfloor>- x * 100 + 1 / 2\<rfloor> else \<lfloor>x * 100 + 1 / 2\<rfloor>)"

definition toFixedText :: "rat \<Rightarrow> rat" where
  "toFixedText x = of_int (centsOf x) / 100"

definition toFixed2 :: "rat \<Rightarrow> rat" where
  "toFixed2 x = toDouble (toFixedText x)"

text \<open>The double a decimal price of \<open>n\<close> cents is read as.\<close>

definition centsDouble :: "int \<Rightarrow> rat" where
  "centsDouble n = toDouble (of_int n / 100)"

text \<open>The spec's \<open>clamp(x, lo, hi)\<close>.\<close>

definition clamp :: "rat \<Rightarrow> rat \<Rightarrow> rat \<Rightarrow> rat" where
  "clamp x lo hi = (if x < lo then lo else if hi < x then hi else x)"


section \<open>Coupon ledger (utils/coupons.js)\<close>

text \<open>
  The ledger is the array that \<open>readAll\<close> parses from \<open>coupons.json\<close> and that
  \<open>writeAll\<close> writes back; every function below takes the array read and returns the
  array written (the array itself when the source does not write). The field \<open>type\<close>
  is \<open>kind\<close> and \<open>value\<close> is \<open>val\<close> here.
\<close>

record coupon =
  code :: string
  kind :: string
  val :: rat
  uses :: int
  maxUses :: int
  active :: bool
  createdAt :: string

datatype validation_error =
  MissingCode | BadCode | BadType | BadValue | PercentOver100 | BadMaxUses | AlreadyExists

definition listCoupons :: "coupon list \<Rightarrow> coupon list" where
  "listCoupons arr = arr"

definition findCoupon :: "string \<Rightarrow> coupon list \<Rightarrow> coupon option" where
  "findCoupon c arr =
     (if c = [] then None
      else case find (\<lambda>x. toLowerCase (code x) = toLowerCase c) arr of
             None \<Rightarrow> None
           | Some x \<Rightarrow>
               if \<not> active x then None
               else if maxUses x > 0 \<and> uses x \<ge> maxUses x then None
               else Some x)"

text \<open>The regular expression \<open>/^[A-Z0-9_-]{2,32}$/\<close>.\<close>

definition codeChar :: "char \<Rightarrow> bool" where
  "codeChar c = (c \<in> set (upperLetters @ ''0123456789_-''))"

definition codeFormatOk :: "string \<Rightarrow> bool" where
  "codeFormatOk s = (2 \<le> length s \<and> length s \<le> 32 \<and> list_all codeChar s)"

definition normCode :: "string \<Rightarrow> string" where
  "normCode c = toUpperCase (trim c)"

text \<open>
  \<open>addCoupon\<close>: every \<open>throw\<close> is an \<open>Inl\<close>, in the order of the source. The last
  argument is the time stamp \<open>new Date().toISOString()\<close>.
\<close>

definition addCoupon ::
  "string \<Rightarrow> string \<Rightarrow> rat \<Rightarrow> int \<Rightarrow> string \<Rightarrow> coupon list
     \<Rightarrow> validation_error + (coupon \<times> coupon list)" where
  "addCoupon c ty v m now arr =
     (if c = [] then Inl MissingCode
      else if \<not> codeFormatOk (normCode c) then Inl BadCode
      else if ty \<noteq> ''fixed'' \<and> ty \<noteq> ''percent'' then Inl BadType
      else if v \<le> 0 then Inl BadValue
      else if ty = ''percent'' \<and> v > 100 then Inl PercentOver100
      else if m < 0 then Inl BadMaxUses
      else if list_ex (\<lambda>x. toUpperCase (code x) = normCode c) arr then Inl AlreadyExists
      else
        let cp = \<lparr>code = normCode c, kind = ty, val = v, uses = 0, maxUses = m,
                  active = True, createdAt = now\<rparr>
        in Inr (cp, arr @ [cp]))"

definition deleteCoupon :: "string \<Rightarrow> coupon list \<Rightarrow> bool \<times> coupon list" where
  "deleteCoupon c arr =
     (let nxt = filter (\<lambda>x. toUpperCase (code x) \<noteq> normCode c) arr
      in (length nxt \<noteq> length arr, nxt))"

fun findIndex :: "('a \<Rightarrow> bool) \<Rightarrow> 'a list \<Rightarrow> nat option" where
  "findIndex P [] = None"
| "findIndex P (x # xs) = (if P x then Some 0 else map_option Suc (findIndex P xs))"

definition incrementCouponUse :: "string \<Rightarrow> coupon list \<Rightarrow> bool \<times> coupon list" where
  "incrementCouponUse c arr =
     (case findIndex (\<lambda>x. toUpperCase (code x) = normCode c) arr of
        None \<Rightarrow> (False, arr)
      | Some idx \<Rightarrow>
          let cp = arr ! idx in
          if \<not> active cp then (False, arr)
          else if maxUses cp > 0 \<and> uses cp \<ge> maxUses cp then (False, arr)
          else (True, arr[idx := cp\<lparr>uses := uses cp + 1\<rparr>]))"

text \<open>A sequence of ledger operations, each applied to the array the one before left.\<close>

datatype ledger_op =
  AddCoupon string string rat int string
| DeleteCoupon string
| IncrementCouponUse string
| FindCoupon string
| ListCoupons

fun ledgerStep :: "coupon list \<Rightarrow> ledger_op \<Rightarrow> coupon list" where
  "ledgerStep arr (AddCoupon c ty v m now) =
     (case addCoupon c ty v m now arr of Inl e \<Rightarrow> arr | Inr (cp, arr') \<Rightarrow> arr')"
| "ledgerStep arr (DeleteCoupon c) = snd (deleteCoupon c arr)"
| "ledgerStep arr (IncrementCouponUse c) = snd (incrementCouponUse c arr)"
| "ledgerStep arr (FindCoupon c) = (let r = findCoupon c arr in arr)"
| "ledgerStep arr ListCoupons = (let r = listCoupons arr in arr)"

definition runLedger :: "coupon list \<Rightarrow> ledger_op list \<Rightarrow> coupon list" where
  "runLedger arr ops = foldl ledgerStep arr ops"

text \<open>The cap: a coupon with a positive \<open>maxUses\<close> has been used at most that often.\<close>

definition withinCap :: "coupon \<Rightarrow> bool" where
  "withinCap cp = (maxUses cp > 0 \<longrightarrow> uses cp \<le> maxUses cp)"

definition ledgerWithinCap :: "coupon list \<Rightarrow> bool" where
  "ledgerWithinCap arr = list_all withinCap arr"

text \<open>The first coupon whose upper-cased code is the normalised code looked for.\<close>

definition couponFor :: "string \<Rightarrow> coupon list \<Rightarrow> coupon option" where
  "couponFor c arr = find (\<lambda>x. toUpperCase (code x) = normCode c) arr"

definition exhausted :: "coupon \<Rightarrow> bool" where
  "exhausted cp = (maxUses cp > 0 \<and> uses cp \<ge> maxUses cp)"


section \<open>Pricing (applyCouponToAmount)\<close>

text \<open>
  The label is a template string in the source; the model keeps what it is built from:
  the coupon's code with the discount as \<open>toFixed(2)\<close> prints it, or with the
  percentage.
\<close>

datatype price_label = FixedLabel string rat | PercentLabel string rat

record price_result =
  r_total :: rat
  r_discount :: rat
  r_label :: "price_label option"

text \<open>
  The unrounded values named \<open>discount\<close> and \<open>pct\<close> in the source, on the numbers
  \<open>Number(amountUsd)\<close> and \<open>Number(coupon.value)\<close>; the percent discount is the double
  product \<open>amount * (pct / 100)\<close> of a double quotient.
\<close>

definition fixedDiscount :: "rat \<Rightarrow> rat \<Rightarrow> rat" where
  "fixedDiscount amount v = max 0 (min amount v)"

definition percentPct :: "rat \<Rightarrow> rat" where
  "percentPct v = max 0 (min 100 v)"

definition percentDiscount :: "rat \<Rightarrow> rat \<Rightarrow> rat" where
  "percentDiscount amount v = toDouble (amount * toDouble (percentPct v / 100))"

definition applyCouponToAmount :: "rat \<Rightarrow> coupon option \<Rightarrow> price_result" where
  "applyCouponToAmount amountUsd cpo =
     (let amount = toDouble amountUsd in
      case cpo of
        None \<Rightarrow> \<lparr>r_total = amount, r_discount = 0, r_label = None\<rparr>
      | Some cp \<Rightarrow>
          if kind cp = ''fixed'' then
            let d = fixedDiscount amount (toDouble (val cp)) in
            \<lparr>r_total = toFixed2 (toDouble (amount - d)), r_discount = toFixed2 d,
             r_label = Some (FixedLabel (code cp) (toFixedText d))\<rparr>
          else if kind cp = ''percent'' then
            let d = percentDiscount amount (toDouble (val cp)) in
            \<lparr>r_total = toFixed2 (toDouble (amount - d)), r_discount = toFixed2 d,
             r_label = Some (PercentLabel (code cp) (percentPct (toDouble (val cp))))\<rparr>
          else \<lparr>r_total = amount, r_discount = 0, r_label = None\<rparr>)"

text \<open>The unrounded discount of a coupon on an amount (0 where no discount applies).\<close>

definition rawDiscount :: "rat \<Rightarrow> coupon option \<Rightarrow> rat" where
  "rawDiscount amountUsd cpo =
     (case cpo of
        None \<Rightarrow> 0
      | Some cp \<Rightarrow>
          if kind cp = ''fixed'' then fixedDiscount (toDouble amountUsd) (toDouble (val cp))
          else if kind cp = ''percent'' then percentDiscount (toDouble amountUsd) (toDouble (val cp))
          else 0)"

definition discounting :: "coupon option \<Rightarrow> bool" where
  "discounting cpo =
     (case cpo of None \<Rightarrow> False | Some cp \<Rightarrow> kind cp = ''fixed'' \<or> kind cp = ''percent'')"

text \<open>
  The spec's words for the rounding: to 2 decimal places, half away from zero. It is
  compared with \<open>toFixedText\<close> below.
\<close>

definition roundHalfAway2 :: "rat \<Rightarrow> rat" where
  "roundHalfAway2 x = sgn x * (of_int \<lfloor>\<bar>x\<bar> * 100 + 1 / 2\<rfloor> / 100)"

text \<open>The spec's words for "already exists (case-insensitive)".\<close>

definition sameCodeIgnoringCase :: "string \<Rightarrow> string \<Rightarrow> bool" where
  "sameCodeIgnoringCase a b = (toLowerCase a = toLowerCase b)"



section \<open>Orders, pending coupons and the persisted state\<close>

text \<open>
  The order object that the product button builds (index.js). \<open>id\<close> is \<open>order_id\<close>
  here, and the fields of \<open>pricing\<close>, \<open>payment\<close> and of the coupon snapshot carry a
  prefix. \<open>paidAmount\<close> is the text the provider sent (Cryptomus) or the text
  \<open>"$" + (amount_total / 100).toFixed(2)\<close> (Stripe), kept as the number it prints.
\<close>

datatype order_status = Pending | Paid

datatype paid_amount = AmountText string | AmountUsd rat

record product =
  prod_id :: string
  prod_name :: string
  prod_price :: rat

record order_coupon =
  oc_code :: string
  oc_kind :: string
  oc_val :: rat
  oc_maxUses :: int
  oc_uses :: int

record pricing =
  pr_original :: rat
  pr_discount :: rat
  pr_total :: rat
  pr_coupon :: "order_coupon option"
  couponUsedMarked :: bool

record payment =
  pay_method :: "string option"
  pay_provider :: "string option"
  pay_url :: "string option"
  pay_transactionId :: "string option"
  pay_paidAmount :: "paid_amount option"

record order =
  order_id :: string
  status :: order_status
  order_createdAt :: string
  guildId :: string
  channelId :: string
  userId :: string
  userTag :: string
  product :: product
  payment :: payment
  pricing :: pricing

text \<open>The value \<open>setPendingCoupon\<close> stores for a channel.\<close>

record pending_coupon =
  pc_code :: string
  pc_kind :: string
  pc_val :: rat
  pc_maxUses :: int

datatype exn = TypeError | Thrown string

text \<open>
  The state the handlers work on: the three JSON files (orders by id, the coupon array,
  pending coupons by channel id), the calls of \<open>notifyPaid\<close> made so far and the
  exceptions the webhook handlers have logged.
\<close>

record world =
  orders :: "string \<rightharpoonup> order"
  coupons :: "coupon list"
  pendingCoupons :: "string \<rightharpoonup> pending_coupon"
  notified :: "order list"
  logged :: "exn list"

text \<open>What a webhook passes to \<open>markPaid\<close> with the order id.\<close>

record pay_info =
  pi_method :: string
  pi_provider :: string
  pi_transactionId :: "string option"
  pi_paidAmount :: "paid_amount option"


subsection \<open>The order store (utils/store.js)\<close>

text \<open>
  The handlers import \<open>markPaid\<close> and \<open>upsertOrder\<close> from utils/store.js, which is
  not among the sources. They take the two functions as a parameter: each gets the state,
  returns the state it leaves and either its result or the exception it throws.
\<close>

record store_api =
  markPaid_of :: "string \<Rightarrow> pay_info \<Rightarrow> world \<Rightarrow> (exn + order option) \<times> world"
  upsertOrder_of :: "order \<Rightarrow> world \<Rightarrow> (exn + unit) \<times> world"

text \<open>Modelled from the spec: \<open>upsertOrder\<close> of utils/store.js, which is missing from the
  sources. It persists the order under its id, replacing an order stored under that id.
\<close>

definition upsertOrder :: "order \<Rightarrow> world \<Rightarrow> world" where
  "upsertOrder ord w = w\<lparr>orders := (orders w)(order_id ord \<mapsto> ord)\<rparr>"

text \<open>Modelled from the spec: \<open>markPaid\<close> of utils/store.js, which is missing from the
  sources. It is the spec's \<open>confirmPayment\<close> without the coupon step, which the
  webhook handlers of the source do themselves: nothing is returned and nothing changes
  if the order does not exist; an order that is already paid is returned unchanged;
  otherwise the status becomes paid, the payment's method, provider, transaction id and
  paid amount are filled in, and the updated order is persisted and returned.
\<close>

definition markPaid :: "string \<Rightarrow> pay_info \<Rightarrow> world \<Rightarrow> order option \<times> world" where
  "markPaid oid info w =
     (case orders w oid of
        None \<Rightarrow> (None, w)
      | Some ord \<Rightarrow>
          if status ord = Paid then (Some ord, w)
          else
            let ord' = ord\<lparr>status := Paid,
                           payment := (payment ord)\<lparr>pay_method := Some (pi_method info),
                                                    pay_provider := Some (pi_provider info),
                                                    pay_transactionId := pi_transactionId info,
                                                    pay_paidAmount := pi_paidAmount info\<rparr>\<rparr>
            in (Some ord', upsertOrder ord' w))"

text \<open>Modelled from the spec: the store of utils/store.js, which is missing from the sources,
  as the parameter of the handlers; its functions do not throw.
\<close>

definition specStore :: store_api where
  "specStore =
     \<lparr>markPaid_of = (\<lambda>oid info w. case markPaid oid info w of (r, w') \<Rightarrow> (Inr r, w')),
      upsertOrder_of = (\<lambda>ord w. (Inr (), upsertOrder ord w))\<rparr>"


subsection \<open>Pending coupons (utils/pendingCoupons.js)\<close>

definition setPendingCoupon :: "string \<Rightarrow> pending_coupon \<Rightarrow> world \<Rightarrow> world" where
  "setPendingCoupon ch pc w = w\<lparr>pendingCoupons := (pendingCoupons w)(ch \<mapsto> pc)\<rparr>"

definition getPendingCoupon :: "string \<Rightarrow> world \<Rightarrow> pending_coupon option" where
  "getPendingCoupon ch w = pendingCoupons w ch"

definition clearPendingCoupon :: "string \<Rightarrow> world \<Rightarrow> world" where
  "clearPendingCoupon ch w =
     (case pendingCoupons w ch of
        None \<Rightarrow> w
      | Some pc \<Rightarrow> w\<lparr>pendingCoupons := (pendingCoupons w)(ch := None)\<rparr>)"


section \<open>Webhooks (index.js)\<close>

text \<open>
  \<open>notifyPaid\<close> sends a message to the order's channel; all of it is inside a
  \<open>try\<close>/\<open>catch\<close>, so it never throws. The model records the call.
\<close>

definition notifyPaid :: "order \<Rightarrow> world \<Rightarrow> world" where
  "notifyPaid ord w = w\<lparr>notified := notified w @ [ord]\<rparr>"

text \<open>
  The block both handlers run on the order \<open>markPaid\<close> returned: the coupon's use is
  counted and the order marked, unless the order has no coupon code or is marked already;
  then \<open>notifyPaid\<close> is called. The result of \<open>incrementCouponUse\<close> is not looked at.
\<close>

definition recordCouponUse :: "store_api \<Rightarrow> order \<Rightarrow> world \<Rightarrow> (exn + order) \<times> world" where
  "recordCouponUse api ord w =
     (case pr_coupon (pricing ord) of
        None \<Rightarrow> (Inr ord, w)
      | Some oc \<Rightarrow>
          if oc_code oc \<noteq> [] \<and> \<not> couponUsedMarked (pricing ord) then
            let w1 = w\<lparr>coupons := snd (incrementCouponUse (oc_code oc) (coupons w))\<rparr>;
                ord' = ord\<lparr>pricing := (pricing ord)\<lparr>couponUsedMarked := True\<rparr>\<rparr>
            in (case upsertOrder_of api ord' w1 of
                  (Inl e, w2) \<Rightarrow> (Inl e, w2)
                | (Inr u, w2) \<Rightarrow> (Inr ord', w2))
          else (Inr ord, w))"

definition afterMarkPaid :: "store_api \<Rightarrow> order option \<Rightarrow> world \<Rightarrow> (exn + unit) \<times> world" where
  "afterMarkPaid api res w =
     (case res of
        None \<Rightarrow> (Inr (), w)
      | Some ord \<Rightarrow>
          (case recordCouponUse api ord w of
             (Inl e, w1) \<Rightarrow> (Inl e, w1)
           | (Inr ord', w1) \<Rightarrow> (Inr (), notifyPaid ord' w1)))"

definition confirmOrder ::
  "store_api \<Rightarrow> string \<Rightarrow> pay_info \<Rightarrow> world \<Rightarrow> (exn + unit) \<times> world" where
  "confirmOrder api oid info w =
     (case markPaid_of api oid info w of
        (Inl e, w1) \<Rightarrow> (Inl e, w1)
      | (Inr res, w1) \<Rightarrow> afterMarkPaid api res w1)"


subsection \<open>Cryptomus\<close>

text \<open>
  The JSON body of the request (an absent body is the payload with no field) and the
  one environment value read. The signature
  \<open>md5(base64(JSON.stringify(payload without sign)) + apiKey)\<close> is a parameter.
\<close>

record cryptomus_payload =
  cp_order_id :: "string option"
  cp_status :: "string option"
  cp_uuid :: "string option"
  cp_txid :: "string option"
  cp_payment_uuid :: "string option"
  cp_amount :: "string option"
  cp_sign :: "string option"

record env =
  CRYPTOMUS_API_KEY :: "string option"

type_synonym signer = "cryptomus_payload \<Rightarrow> string \<Rightarrow> string"

type_synonym response = "nat \<times> string"

definition isCryptomusWebhookTrusted :: "signer \<Rightarrow> cryptomus_payload \<Rightarrow> env \<Rightarrow> bool" where
  "isCryptomusWebhookTrusted sg p e =
     (case CRYPTOMUS_API_KEY e of
        None \<Rightarrow> True
      | Some apiKey \<Rightarrow>
          if apiKey = [] then True
          else (case cp_sign p of
                  None \<Rightarrow> False
                | Some received \<Rightarrow>
                    if received = [] then False
                    else sg (p\<lparr>cp_sign := None\<rparr>) apiKey = received))"

definition paidStatuses :: "string list" where
  "paidStatuses = [''paid'', ''paid_over'', ''paid_partial'']"

definition statusOf :: "cryptomus_payload \<Rightarrow> string" where
  "statusOf p = toLowerCase (case cp_status p of None \<Rightarrow> [] | Some s \<Rightarrow> s)"

definition cryptomusInfo :: "cryptomus_payload \<Rightarrow> pay_info" where
  "cryptomusInfo p =
     \<lparr>pi_method = ''crypto'', pi_provider = ''cryptomus'',
      pi_transactionId = orElse (cp_uuid p) (orElse (cp_txid p) (orElse (cp_payment_uuid p) None)),
      pi_paidAmount = (if truthy (cp_amount p) then map_option AmountText (cp_amount p) else None)\<rparr>"

text \<open>What the handler does with a request that passed \<open>isCryptomusWebhookTrusted\<close>.\<close>

definition cryptomusProcess ::
  "store_api \<Rightarrow> cryptomus_payload \<Rightarrow> world \<Rightarrow> (exn + response) \<times> world" where
  "cryptomusProcess api p w =
     (case cp_order_id p of
        None \<Rightarrow> (Inr (200, ''no order''), w)
      | Some oid \<Rightarrow>
          if oid = [] then (Inr (200, ''no order''), w)
          else if statusOf p \<notin> set paidStatuses then (Inr (200, ''not paid''), w)
          else (case confirmOrder api oid (cryptomusInfo p) w of
                  (Inl e, w1) \<Rightarrow> (Inl e, w1)
                | (Inr u, w1) \<Rightarrow> (Inr (200, ''ok''), w1)))"

text \<open>The body of the \<open>try\<close>.\<close>

definition cryptomusTry ::
  "store_api \<Rightarrow> signer \<Rightarrow> env \<Rightarrow> cryptomus_payload \<Rightarrow> world \<Rightarrow> (exn + response) \<times> world" where
  "cryptomusTry api sg e p w =
     (if \<not> isCryptomusWebhookTrusted sg p e then (Inr (401, ''untrusted''), w)
      else cryptomusProcess api p w)"

text \<open>The handler: the \<open>catch\<close> logs the exception and answers 200.\<close>

definition cryptomusWebhook ::
  "store_api \<Rightarrow> signer \<Rightarrow> env \<Rightarrow> cryptomus_payload \<Rightarrow> world \<Rightarrow> response \<times> world" where
  "cryptomusWebhook api sg e p w =
     (case cryptomusTry api sg e p w of
        (Inl ex, w1) \<Rightarrow> ((200, ''ok''), w1\<lparr>logged := logged w1 @ [ex]\<rparr>)
      | (Inr r, w1) \<Rightarrow> (r, w1))"


subsection \<open>Stripe\<close>

text \<open>
  \<open>getStripe\<close>, \<open>stripe.webhooks.constructEvent\<close> (the signature check, used when
  \<open>STRIPE_WEBHOOK_SECRET\<close> is set) and \<open>JSON.parse\<close> are outside the sources: the
  request is given as what they produce, the exception thrown (also the \<open>TypeError\<close> of
  reading \<open>type\<close> from a \<open>null\<close> event) or the event. \<open>NoData\<close> is an event without
  \<open>data\<close>; the session is \<open>data.object\<close>, and \<open>ss_orderId\<close> is its
  \<open>metadata?.orderId\<close>.
\<close>

record stripe_session =
  ss_orderId :: "string option"
  ss_payment_intent :: "string option"
  ss_id :: "string option"
  ss_amount_total :: "rat option"

datatype event_data = NoData | Data "stripe_session option"

record stripe_event =
  ev_type :: string
  ev_data :: event_data

definition stripeInfo :: "stripe_session \<Rightarrow> pay_info" where
  "stripeInfo s =
     \<lparr>pi_method = ''stripe'', pi_provider = ''stripe'',
      pi_transactionId = orElse (ss_payment_intent s) (orElse (ss_id s) None),
      pi_paidAmount =
        (case ss_amount_total s of
           None \<Rightarrow> None
         | Some a \<Rightarrow>
             if a \<noteq> 0 then Some (AmountUsd (toFixedText (toDouble (a / 100)))) else None)\<rparr>"

definition stripeTry ::
  "store_api \<Rightarrow> exn + stripe_event \<Rightarrow> world \<Rightarrow> (exn + response) \<times> world" where
  "stripeTry api decoded w =
     (case decoded of
        Inl ex \<Rightarrow> (Inl ex, w)
      | Inr ev \<Rightarrow>
          if ev_type ev = ''checkout.session.completed'' then
            (case ev_data ev of
               NoData \<Rightarrow> (Inl TypeError, w)
             | Data None \<Rightarrow> (Inr (200, ''ok''), w)
             | Data (Some s) \<Rightarrow>
                 if truthy (ss_orderId s) then
                   (case confirmOrder api (case ss_orderId s of Some oid \<Rightarrow> oid | None \<Rightarrow> [])
                           (stripeInfo s) w of
                      (Inl e, w1) \<Rightarrow> (Inl e, w1)
                    | (Inr u, w1) \<Rightarrow> (Inr (200, ''ok''), w1))
                 else (Inr (200, ''ok''), w))
          else (Inr (200, ''ok''), w))"

definition stripeWebhook ::
  "store_api \<Rightarrow> exn + stripe_event \<Rightarrow> world \<Rightarrow> response \<times> world" where
  "stripeWebhook api decoded w =
     (case stripeTry api decoded w of
        (Inl ex, w1) \<Rightarrow> ((200, ''ok''), w1\<lparr>logged := logged w1 @ [ex]\<rparr>)
      | (Inr r, w1) \<Rightarrow> (r, w1))"

text \<open>A webhook delivery to either endpoint.\<close>

datatype delivery =
  CryptomusDelivery signer env cryptomus_payload
| StripeDelivery "exn + stripe_event"

fun deliver :: "store_api \<Rightarrow> delivery \<Rightarrow> world \<Rightarrow> response \<times> world" where
  "deliver api (CryptomusDelivery sg e p) w = cryptomusWebhook api sg e p w"
| "deliver api (StripeDelivery decoded) w = stripeWebhook api decoded w"


section \<open>Chat handlers (index.js)\<close>

text \<open>
  The fields of the interaction the handlers read. Messages sent to the channel and
  replies are not part of the state; sending is taken to succeed.
\<close>

record interaction =
  i_customId :: string
  i_guildId :: string
  i_channelId :: string
  i_userId :: string
  i_userTag :: string

text \<open>\<open>s.split(c)\<close> for a separator of one character.\<close>

fun splitOn :: "char \<Rightarrow> string \<Rightarrow> string list" where
  "splitOn c [] = [[]]"
| "splitOn c (x # xs) =
     (if x = c then [] # splitOn c xs
      else (case splitOn c xs of [] \<Rightarrow> [[x]] | h # t \<Rightarrow> (x # h) # t))"

definition secondPart :: "string \<Rightarrow> string option" where
  "secondPart s = (case splitOn CHR '':'' s of a # b # rest \<Rightarrow> Some b | _ \<Rightarrow> None)"

datatype button_result = NotChooseProd | ProductNotFound | ButtonError exn | OrderCreated order

definition newOrder :: "string \<Rightarrow> string \<Rightarrow> interaction \<Rightarrow> product \<Rightarrow> order" where
  "newOrder newId now i prd =
     \<lparr>order_id = newId, status = Pending, order_createdAt = now, guildId = i_guildId i,
      channelId = i_channelId i, userId = i_userId i, userTag = i_userTag i,
      product = \<lparr>prod_id = prod_id prd, prod_name = prod_name prd, prod_price = prod_price prd\<rparr>,
      payment = \<lparr>pay_method = None, pay_provider = None, pay_url = None,
                 pay_transactionId = None, pay_paidAmount = None\<rparr>,
      pricing = \<lparr>pr_original = prod_price prd, pr_discount = 0, pr_total = prod_price prd,
                 pr_coupon = None, couponUsedMarked = False\<rparr>\<rparr>"

definition couponPricing :: "product \<Rightarrow> coupon \<Rightarrow> pricing" where
  "couponPricing prd cp =
     (let r = applyCouponToAmount (toDouble (prod_price prd)) (Some cp) in
      \<lparr>pr_original = toDouble (prod_price prd), pr_discount = r_discount r, pr_total = r_total r,
       pr_coupon = Some \<lparr>oc_code = code cp, oc_kind = kind cp, oc_val = val cp,
                         oc_maxUses = maxUses cp, oc_uses = uses cp\<rparr>,
       couponUsedMarked = False\<rparr>)"

text \<open>
  The button \<open>choose_prod:<id>\<close>. \<open>newId\<close> is the \<open>uuid()\<close> drawn and \<open>now\<close> the
  time stamp. An exception is caught by the handler's \<open>catch\<close>, which replies with the
  error.
\<close>

definition chooseProd ::
  "store_api \<Rightarrow> product list \<Rightarrow> string \<Rightarrow> string \<Rightarrow> interaction \<Rightarrow> world
     \<Rightarrow> button_result \<times> world" where
  "chooseProd api products newId now i w =
     (if take 12 (i_customId i) \<noteq> ''choose_prod:'' then (NotChooseProd, w)
      else
        case find (\<lambda>p. Some (prod_id p) = secondPart (i_customId i)) products of
          None \<Rightarrow> (ProductNotFound, w)
        | Some prd \<Rightarrow>
            let ord0 = newOrder newId now i prd;
                (ord1, w1) =
                  (case getPendingCoupon (i_channelId i) w of
                     None \<Rightarrow> (ord0, w)
                   | Some pend \<Rightarrow>
                       if pc_code pend = [] then (ord0, w)
                       else (case findCoupon (pc_code pend) (coupons w) of
                               Some cp \<Rightarrow>
                                 (ord0\<lparr>pricing := couponPricing prd cp\<rparr>,
                                  clearPendingCoupon (i_channelId i) w)
                             | None \<Rightarrow> (ord0, clearPendingCoupon (i_channelId i) w)))
            in (case upsertOrder_of api ord1 w1 of
                  (Inl e, w2) \<Rightarrow> (ButtonError e, w2)
                | (Inr u, w2) \<Rightarrow> (OrderCreated ord1, w2)))"

text \<open>The coupon modal: the code typed is saved for the channel if it is a usable coupon.\<close>

definition couponModalSubmit :: "string \<Rightarrow> string \<Rightarrow> world \<Rightarrow> bool \<times> world" where
  "couponModalSubmit typed ch w =
     (case findCoupon (trim typed) (coupons w) of
        None \<Rightarrow> (False, w)
      | Some cp \<Rightarrow>
          (True, setPendingCoupon ch
                   \<lparr>pc_code = code cp, pc_kind = kind cp, pc_val = val cp,
                    pc_maxUses = maxUses cp\<rparr> w))"


section \<open>Predicates on the state\<close>

text \<open>
  Nothing is left to do for the order id: there is no such order, or it is paid and its
  coupon, if it has one with a code, is marked as counted.
\<close>

definition hasCouponCode :: "order \<Rightarrow> bool" where
  "hasCouponCode ord = (case pr_coupon (pricing ord) of None \<Rightarrow> False | Some oc \<Rightarrow> oc_code oc \<noteq> [])"

definition settled :: "string \<Rightarrow> world \<Rightarrow> bool" where
  "settled oid w =
     (case orders w oid of
        None \<Rightarrow> True
      | Some ord \<Rightarrow> status ord = Paid \<and> (hasCouponCode ord \<longrightarrow> couponUsedMarked (pricing ord)))"

text \<open>The order as \<open>markPaid\<close> leaves it, and as the coupon step leaves it.\<close>

definition paidOrder :: "pay_info \<Rightarrow> order \<Rightarrow> order" where
  "paidOrder info ord =
     ord\<lparr>status := Paid,
         payment := (payment ord)\<lparr>pay_method := Some (pi_method info),
                                  pay_provider := Some (pi_provider info),
                                  pay_transactionId := pi_transactionId info,
                                  pay_paidAmount := pi_paidAmount info\<rparr>\<rparr>"

definition markedOrder :: "order \<Rightarrow> order" where
  "markedOrder ord = ord\<lparr>pricing := (pricing ord)\<lparr>couponUsedMarked := True\<rparr>\<rparr>"

definition couponCodeOf :: "order \<Rightarrow> string" where
  "couponCodeOf ord = (case pr_coupon (pricing ord) of None \<Rightarrow> [] | Some oc \<Rightarrow> oc_code oc)"


section \<open>Sample data\<close>

definition demoCoupon :: coupon where
  "demoCoupon = \<lparr>code = ''SAVE10'', kind = ''fixed'', val = 10, uses = 0, maxUses = 1,
                  active = True, createdAt = ''2024-01-01T00:00:00.000Z''\<rparr>"

definition demoAdded :: coupon where
  "demoAdded = \<lparr>code = ''VIP-5'', kind = ''percent'', val = 5, uses = 0, maxUses = 0,
                 active = True, createdAt = ''2024-02-02T00:00:00.000Z''\<rparr>"

definition demoOrder :: order where
  "demoOrder =
     \<lparr>order_id = ''ord-1'', status = Pending, order_createdAt = ''2024-05-05T10:00:00.000Z'',
      guildId = ''g-1'', channelId = ''ch-1'', userId = ''u-1'', userTag = ''buyer#0001'',
      product = \<lparr>prod_id = ''p1'', prod_name = ''Gold'', prod_price = 20\<rparr>,
      payment = \<lparr>pay_method = None, pay_provider = None, pay_url = None,
                 pay_transactionId = None, pay_paidAmount = None\<rparr>,
      pricing = \<lparr>pr_original = 20, pr_discount = 10, pr_total = 10,
                 pr_coupon = Some \<lparr>oc_code = ''SAVE10'', oc_kind = ''fixed'', oc_val = 10,
                                   oc_maxUses = 1, oc_uses = 0\<rparr>,
                 couponUsedMarked = False\<rparr>\<rparr>"

definition demoWorld :: world where
  "demoWorld =
     \<lparr>orders = [''ord-1'' \<mapsto> demoOrder], coupons = [demoCoupon], pendingCoupons = Map.empty,
      notified = [], logged = []\<rparr>"

definition demoSigner :: signer where
  "demoSigner p k = ''5d41402abc4b2a76b9719d911017c592''"

definition demoEnvNoKey :: env where
  "demoEnvNoKey = \<lparr>CRYPTOMUS_API_KEY = None\<rparr>"

definition demoEnvKey :: env where
  "demoEnvKey = \<lparr>CRYPTOMUS_API_KEY = Some ''secret''\<rparr>"

definition demoPayload :: cryptomus_payload where
  "demoPayload =
     \<lparr>cp_order_id = Some ''ord-1'', cp_status = Some ''PAID_PARTIAL'', cp_uuid = Some ''tx-1'',
      cp_txid = None, cp_payment_uuid = None, cp_amount = Some ''4.00'', cp_sign = None\<rparr>"

definition demoCryptomus :: delivery where
  "demoCryptomus = CryptomusDelivery demoSigner demoEnvNoKey demoPayload"

definition demoEvent :: stripe_event where
  "demoEvent =
     \<lparr>ev_type = ''checkout.session.completed'',
      ev_data = Data (Some \<lparr>ss_orderId = Some ''ord-1'', ss_payment_intent = Some ''pi_2'',
                            ss_id = Some ''cs_2'', ss_amount_total = Some 1000\<rparr>)\<rparr>"

definition demoPaidOrder :: order where
  "demoPaidOrder = markedOrder (paidOrder (cryptomusInfo demoPayload) demoOrder)"

definition throwingStore :: store_api where
  "throwingStore =
     \<lparr>markPaid_of = (\<lambda>oid info w. (Inl (Thrown ''EACCES''), w)),
      upsertOrder_of = (\<lambda>ord w. (Inl (Thrown ''EACCES''), w))\<rparr>"

definition demoProducts :: "product list" where
  "demoProducts =
     [\<lparr>prod_id = ''p1'', prod_name = ''Gold'', prod_price = 20\<rparr>,
      \<lparr>prod_id = ''p2'', prod_name = ''Silver'', prod_price = 5\<rparr>]"

definition demoClick :: "string \<Rightarrow> interaction" where
  "demoClick pid =
     \<lparr>i_customId = ''choose_prod:'' @ pid, i_guildId = ''g-1'', i_channelId = ''ch-1'',
      i_userId = ''u-1'', i_userTag = ''buyer#0001''\<rparr>"

definition demoEmptyWorld :: world where
  "demoEmptyWorld =
     \<lparr>orders = Map.empty, coupons = [demoCoupon], pendingCoupons = Map.empty,
      notified = [], logged = []\<rparr>"

definition demoStaleWorld :: world where
  "demoStaleWorld =
     demoEmptyWorld\<lparr>pendingCoupons :=
       [''ch-1'' \<mapsto> \<lparr>pc_code = ''GONE'', pc_kind = ''percent'', pc_val = 15, pc_maxUses = 0\<rparr>]\<rparr>"

definition demoSession :: stripe_session where
  "demoSession =
     \<lparr>ss_orderId = Some ''ord-9'', ss_payment_intent = Some ''pi_9'', ss_id = Some ''cs_9'',
      ss_amount_total = Some 500\<rparr>"


section \<open>Binary64 rounding\<close>

lemma pow2_pos [simp]: "0 < pow2 e"
  by (simp add: pow2_def)

lemma pow2_add: "pow2 (a + b) = pow2 a * pow2 b"
  by (simp add: pow2_def power_int_add)

lemma pow2_diff: "pow2 (a - b) = pow2 a / pow2 b"
  by (simp add: pow2_def power_int_diff)

lemma pow2_nat: "0 \<le> e \<Longrightarrow> pow2 e = 2 ^ nat e"
  by (simp add: pow2_def power_int_nonneg_exp)

lemma pow2_mono: "a \<le> b \<Longrightarrow> pow2 a \<le> pow2 b"
  by (simp add: pow2_def power_int_increasing)

lemma pow2_strict_mono: "a < b \<Longrightarrow> pow2 a < pow2 b"
  by (simp add: pow2_def power_int_strict_increasing)

lemma pow2_less_iff: "pow2 a < pow2 b \<longleftrightarrow> a < b"
  by (metis pow2_mono pow2_strict_mono not_less)

lemma pow2_nonneg [simp]: "0 \<le> pow2 e"
  by (simp add: pow2_def)

lemma pow2_one: "pow2 1 = 2"
  by (simp add: pow2_def)

lemma pow2_Suc: "pow2 (e + 1) = 2 * pow2 e"
  by (simp add: pow2_add pow2_one)

lemma exponentOf_bounds:
  assumes "0 < x"
  shows "pow2 (exponentOf x) \<le> x \<and> x < pow2 (exponentOf x + 1)"
proof -
  obtain p q where pq: "quotient_of x = (p, q)" by (cases "quotient_of x")
  have q: "0 < q" using quotient_of_denom_pos [OF pq] .
  have x: "x = of_int p / of_int q" using quotient_of_div [OF pq] .
  have p: "0 < p" using assms q unfolding x by (simp add: zero_less_divide_iff)
  define lp where "lp = bitlen p"
  define lq where "lq = bitlen q"
  have bp: "2 ^ nat (lp - 1) \<le> p" "p < 2 ^ nat lp" using bitlen_bounds [OF p] by (simp_all add: lp_def)
  have bq: "2 ^ nat (lq - 1) \<le> q" "q < 2 ^ nat lq" using bitlen_bounds [OF q] by (simp_all add: lq_def)
  have l1: "1 \<le> lp" "1 \<le> lq"
    using p q by (simp_all add: lp_def lq_def bitlen_alt_def)
  have rp: "pow2 (lp - 1) \<le> of_int p" "of_int p < pow2 lp"
  proof -
    have "(of_int (2 ^ nat (lp - 1)) :: rat) \<le> of_int p" using bp(1) by (simp only: of_int_le_iff)
    then show "pow2 (lp - 1) \<le> of_int p" using l1 by (simp add: pow2_nat)
    have "(of_int p :: rat) < of_int (2 ^ nat lp)" using bp(2) by (simp only: of_int_less_iff)
    then show "of_int p < pow2 lp" using l1 by (simp add: pow2_nat)
  qed
  have rq: "pow2 (lq - 1) \<le> of_int q" "of_int q < pow2 lq"
  proof -
    have "(of_int (2 ^ nat (lq - 1)) :: rat) \<le> of_int q" using bq(1) by (simp only: of_int_le_iff)
    then show "pow2 (lq - 1) \<le> of_int q" using l1 by (simp add: pow2_nat)
    have "(of_int q :: rat) < of_int (2 ^ nat lq)" using bq(2) by (simp only: of_int_less_iff)
    then show "of_int q < pow2 lq" using l1 by (simp add: pow2_nat)
  qed
  have qpos: "(0::rat) < of_int q" using q by simp
  have up: "x < pow2 (lp - lq + 1)"
  proof -
    have "of_int p < pow2 lp" by (rule rp(2))
    also have "pow2 lp = pow2 (lp - lq + 1) * pow2 (lq - 1)"
      by (simp add: pow2_add [symmetric])
    also have "\<dots> \<le> pow2 (lp - lq + 1) * of_int q"
      using rq(1) by (intro mult_left_mono) simp_all
    finally show ?thesis unfolding x using qpos by (simp add: pos_divide_less_eq)
  qed
  have lo: "pow2 (lp - lq - 1) < x"
  proof -
    have "pow2 (lp - lq - 1) * of_int q < pow2 (lp - lq - 1) * pow2 lq"
      using rq(2) by (intro mult_strict_left_mono) simp_all
    also have "\<dots> = pow2 (lp - 1)" by (simp add: pow2_add [symmetric])
    also have "\<dots> \<le> of_int p" by (rule rp(1))
    finally show ?thesis unfolding x using qpos by (simp add: pos_less_divide_eq)
  qed
  have e: "exponentOf x = (if pow2 (lp - lq) \<le> x then lp - lq else lp - lq - 1)"
    by (simp add: exponentOf_def pq lp_def lq_def Let_def)
  show ?thesis
  proof (cases "pow2 (lp - lq) \<le> x")
    case True
    then show ?thesis using up by (simp add: e)
  next
    case False
    then show ?thesis using lo by (simp add: e)
  qed
qed

lemma exponentOf_unique:
  assumes "0 < x" "pow2 e \<le> x" "x < pow2 (e + 1)"
  shows "exponentOf x = e"
proof -
  from exponentOf_bounds [OF assms(1)] have b: "pow2 (exponentOf x) \<le> x" "x < pow2 (exponentOf x + 1)"
    by simp_all
  have "pow2 e < pow2 (exponentOf x + 1)" using assms(2) b(2) by simp
  then have 1: "e < exponentOf x + 1" by (simp add: pow2_less_iff)
  have "pow2 (exponentOf x) < pow2 (e + 1)" using assms(3) b(1) by simp
  then have 2: "exponentOf x < e + 1" by (simp add: pow2_less_iff)
  from 1 2 show ?thesis by simp
qed

lemma roundEven_cases: "roundEven y = \<lfloor>y\<rfloor> \<or> roundEven y = \<lfloor>y\<rfloor> + 1"
  by (simp add: roundEven_def Let_def)

lemma roundEven_error: "\<bar>of_int (roundEven y) - y\<bar> \<le> 1 / 2"
proof -
  have "of_int \<lfloor>y\<rfloor> \<le> y" "y < of_int \<lfloor>y\<rfloor> + 1" by linarith+
  then show ?thesis
    by (auto simp: roundEven_def Let_def split: if_splits)
qed

lemma roundEven_of_int [simp]: "roundEven (of_int n) = n"
  by (simp add: roundEven_def)

lemma roundEven_mono:
  assumes "x \<le> y"
  shows "roundEven x \<le> roundEven y"
proof (cases "\<lfloor>x\<rfloor> = \<lfloor>y\<rfloor>")
  case True
  then show ?thesis using assms by (auto simp: roundEven_def Let_def)
next
  case False
  with assms have "\<lfloor>x\<rfloor> + 1 \<le> \<lfloor>y\<rfloor>" using floor_mono [OF assms] by linarith
  moreover have "roundEven x \<le> \<lfloor>x\<rfloor> + 1" using roundEven_cases [of x] by auto
  moreover have "\<lfloor>y\<rfloor> \<le> roundEven y" using roundEven_cases [of y] by auto
  ultimately show ?thesis by linarith
qed

lemma roundEven_ge: "of_int a \<le> y \<Longrightarrow> a \<le> roundEven y"
  using roundEven_mono [of "of_int a" y] by simp

lemma roundEven_le: "y \<le> of_int b \<Longrightarrow> roundEven y \<le> b"
  using roundEven_mono [of y "of_int b"] by simp

lemma pow2_neq0 [simp]: "pow2 e \<noteq> 0"
  by (simp add: pow2_def)

lemma pow2_52: "pow2 52 = of_int (2 ^ 52)"
  by (simp add: pow2_def)

lemma pow2_53: "pow2 53 = of_int (2 ^ 53)"
  by (simp add: pow2_def)

lemma pow2_53_double: "pow2 53 = 2 * pow2 52"
  by (simp add: pow2_def)

lemma pow2_split52: "pow2 e = pow2 52 * pow2 (e - 52)"
  using pow2_add [of 52 "e - 52"] by simp

lemma pow2_split53: "pow2 (e + 1) = pow2 53 * pow2 (e - 52)"
proof -
  have "53 + (e - 52) = e + 1" by simp
  then show ?thesis using pow2_add [of 53 "e - 52"] by (simp only:)
qed

lemma toDouble_pos_eq:
  assumes "0 < x"
  shows "toDouble x = of_int (roundEven (x / pow2 (exponentOf x - 52))) * pow2 (exponentOf x - 52)"
  using assms by (simp add: toDouble_def Let_def)

lemma mantissa_range:
  assumes "0 < x"
  shows "pow2 52 \<le> x / pow2 (exponentOf x - 52) \<and> x / pow2 (exponentOf x - 52) < pow2 53"
proof -
  let ?e = "exponentOf x"
  from exponentOf_bounds [OF assms] have b: "pow2 ?e \<le> x" "x < pow2 (?e + 1)" by simp_all
  have "pow2 52 * pow2 (?e - 52) \<le> x" using b(1) pow2_split52 [of ?e] by simp
  moreover have "x < pow2 53 * pow2 (?e - 52)" using b(2) pow2_split53 [of ?e] by simp
  ultimately show ?thesis by (simp add: pos_le_divide_eq pos_divide_less_eq)
qed

lemma mantissa_int_range:
  assumes "0 < x"
  shows "pow2 52 \<le> of_int (roundEven (x / pow2 (exponentOf x - 52))) \<and>
         of_int (roundEven (x / pow2 (exponentOf x - 52))) \<le> pow2 53"
proof -
  let ?y = "x / pow2 (exponentOf x - 52)"
  from mantissa_range [OF assms]
  have "of_int (2 ^ 52) \<le> ?y" "?y \<le> of_int (2 ^ 53)"
    unfolding pow2_52 pow2_53 by simp_all
  then have "2 ^ 52 \<le> roundEven ?y" "roundEven ?y \<le> 2 ^ 53"
    using roundEven_ge roundEven_le by blast+
  then have "(of_int (2 ^ 52) :: rat) \<le> of_int (roundEven ?y)"
    "(of_int (roundEven ?y) :: rat) \<le> of_int (2 ^ 53)"
    by (simp_all only: of_int_le_iff)
  then show ?thesis unfolding pow2_52 pow2_53 by blast
qed

lemma toDouble_pos_range:
  assumes "0 < x"
  shows "pow2 (exponentOf x) \<le> toDouble x \<and> toDouble x \<le> pow2 (exponentOf x + 1)"
proof -
  let ?k = "exponentOf x - 52"
  let ?m = "roundEven (x / pow2 ?k)"
  from mantissa_int_range [OF assms] have r: "pow2 52 \<le> of_int ?m" "of_int ?m \<le> pow2 53"
    by simp_all
  have "pow2 52 * pow2 ?k \<le> of_int ?m * pow2 ?k" "of_int ?m * pow2 ?k \<le> pow2 53 * pow2 ?k"
    using r by (simp_all add: mult_right_mono)
  then show ?thesis
    unfolding toDouble_pos_eq [OF assms] pow2_split52 [of "exponentOf x"]
      pow2_split53 [of "exponentOf x"] by blast
qed

lemma toDouble_pos: "0 < x \<Longrightarrow> 0 < toDouble x"
  using toDouble_pos_range [of x] pow2_pos [of "exponentOf x"] by linarith

lemma toDouble_neg: "toDouble (- x) = - toDouble x"
  by (simp add: toDouble_def Let_def sgn_minus)

lemma toDouble_zero [simp]: "toDouble 0 = 0"
  by (simp add: toDouble_def)

lemma toDouble_nonneg: "0 \<le> x \<Longrightarrow> 0 \<le> toDouble x"
  using toDouble_pos [of x] by (cases "x = 0") (simp_all add: less_le)

lemma half_le_div: "0 < a \<Longrightarrow> a \<le> y \<Longrightarrow> 1 / 2 \<le> y / (2 * a)" for a y :: rat
  by (simp add: field_simps)

lemma toDouble_pos_error:
  assumes "0 < x"
  shows "\<bar>toDouble x - x\<bar> \<le> x / 2 ^ 53"
proof -
  let ?k = "exponentOf x - 52"
  let ?y = "x / pow2 ?k"
  have x: "x = ?y * pow2 ?k" by simp
  have "toDouble x - x = (of_int (roundEven ?y) - ?y) * pow2 ?k"
    unfolding toDouble_pos_eq [OF assms] by (simp add: left_diff_distrib)
  then have "\<bar>toDouble x - x\<bar> = \<bar>of_int (roundEven ?y) - ?y\<bar> * pow2 ?k"
    by (simp add: abs_mult)
  also have "\<dots> \<le> (1 / 2) * pow2 ?k"
    by (intro mult_right_mono roundEven_error) simp
  also have "\<dots> \<le> (?y / pow2 53) * pow2 ?k"
  proof (intro mult_right_mono)
    have "pow2 52 \<le> ?y" using mantissa_range [OF assms] by blast
    from half_le_div [OF pow2_pos this] show "1 / 2 \<le> ?y / pow2 53"
      unfolding pow2_53_double .
  qed simp
  also have "\<dots> = x / pow2 53" by simp
  also have "\<dots> = x / 2 ^ 53" by (simp add: pow2_def)
  finally show ?thesis .
qed

lemma toDouble_error: "\<bar>toDouble x - x\<bar> \<le> \<bar>x\<bar> / 2 ^ 53"
proof -
  consider "0 < x" | "x = 0" | "0 < - x" by linarith
  then show ?thesis
  proof cases
    case 1
    then show ?thesis using toDouble_pos_error [OF 1] by simp
  next
    case 2
    then show ?thesis by simp
  next
    case 3
    have "toDouble (- x) - (- x) = - (toDouble x - x)" by (simp add: toDouble_neg)
    then have "\<bar>toDouble (- x) - (- x)\<bar> = \<bar>toDouble x - x\<bar>" by (simp only: abs_minus)
    moreover have "\<bar>x\<bar> = - x" using 3 by simp
    ultimately show ?thesis using toDouble_pos_error [OF 3] by simp
  qed
qed

lemma exponentOf_mono:
  assumes "0 < x" "x \<le> y"
  shows "exponentOf x \<le> exponentOf y"
proof (rule ccontr)
  assume "\<not> exponentOf x \<le> exponentOf y"
  then have "exponentOf y + 1 \<le> exponentOf x" by simp
  then have "pow2 (exponentOf y + 1) \<le> pow2 (exponentOf x)" by (rule pow2_mono)
  moreover have "y < pow2 (exponentOf y + 1)" using exponentOf_bounds [of y] assms by simp
  moreover have "pow2 (exponentOf x) \<le> x" using exponentOf_bounds [OF assms(1)] by simp
  ultimately show False using assms(2) by linarith
qed

lemma toDouble_pos_mono:
  assumes "0 < x" "x \<le> y"
  shows "toDouble x \<le> toDouble y"
proof -
  have y: "0 < y" using assms by simp
  show ?thesis
  proof (cases "exponentOf x = exponentOf y")
    case True
    have "x / pow2 (exponentOf y - 52) \<le> y / pow2 (exponentOf y - 52)"
      using assms(2) by (simp add: divide_right_mono)
    then have "roundEven (x / pow2 (exponentOf y - 52)) \<le> roundEven (y / pow2 (exponentOf y - 52))"
      by (rule roundEven_mono)
    then have "(of_int (roundEven (x / pow2 (exponentOf y - 52))) :: rat)
                 \<le> of_int (roundEven (y / pow2 (exponentOf y - 52)))"
      by simp
    then show ?thesis
      unfolding toDouble_pos_eq [OF assms(1)] toDouble_pos_eq [OF y] True
      by (intro mult_right_mono) simp_all
  next
    case False
    with exponentOf_mono [OF assms] have "exponentOf x + 1 \<le> exponentOf y" by simp
    then have "pow2 (exponentOf x + 1) \<le> pow2 (exponentOf y)" by (rule pow2_mono)
    moreover have "toDouble x \<le> pow2 (exponentOf x + 1)" using toDouble_pos_range [OF assms(1)] by simp
    moreover have "pow2 (exponentOf y) \<le> toDouble y" using toDouble_pos_range [OF y] by simp
    ultimately show ?thesis by linarith
  qed
qed

lemma toDouble_mono:
  assumes "x \<le> y"
  shows "toDouble x \<le> toDouble y"
proof -
  consider "0 < x" | "x \<le> 0" "0 \<le> y" | "y < 0" by linarith
  then show ?thesis
  proof cases
    case 1
    then show ?thesis using toDouble_pos_mono assms by blast
  next
    case 2
    have "toDouble x \<le> 0" using toDouble_nonneg [of "- x"] 2(1) by (simp add: toDouble_neg)
    moreover have "0 \<le> toDouble y" using toDouble_nonneg 2(2) by blast
    ultimately show ?thesis by linarith
  next
    case 3
    then have "0 < - y" "- y \<le> - x" using assms by simp_all
    from toDouble_pos_mono [OF this] show ?thesis by (simp add: toDouble_neg)
  qed
qed

lemma toDouble_idem: "toDouble (toDouble x) = toDouble x"
proof -
  have pos: "toDouble (toDouble x) = toDouble x" if x: "0 < x" for x
  proof -
    let ?e = "exponentOf x"
    let ?k = "?e - 52"
    let ?m = "roundEven (x / pow2 ?k)"
    have d: "toDouble x = of_int ?m * pow2 ?k" by (rule toDouble_pos_eq [OF x])
    have dp: "0 < toDouble x" by (rule toDouble_pos [OF x])
    from mantissa_int_range [OF x] have m: "pow2 52 \<le> of_int ?m" "of_int ?m \<le> pow2 53"
      by simp_all
    show ?thesis
    proof (cases "?m = 2 ^ 53")
      case True
      have v: "toDouble x = pow2 (?e + 1)"
        unfolding d True pow2_53 [symmetric] pow2_split53 [of ?e] ..
      have ex: "exponentOf (pow2 (?e + 1)) = ?e + 1"
        by (rule exponentOf_unique) (simp_all add: pow2_strict_mono)
      have "pow2 (?e + 1) / pow2 (?e + 1 - 52) = of_int (2 ^ 52)"
        unfolding pow2_52 [symmetric] using pow2_split52 [of "?e + 1"] by simp
      then have "toDouble (pow2 (?e + 1)) = of_int (2 ^ 52) * pow2 (?e + 1 - 52)"
        using toDouble_pos_eq [of "pow2 (?e + 1)"] unfolding ex
        by (simp only: roundEven_of_int pow2_pos)
      also have "\<dots> = pow2 (?e + 1)"
        unfolding pow2_52 [symmetric] using pow2_split52 [of "?e + 1"] by simp
      finally show ?thesis unfolding v .
    next
      case False
      have "(of_int ?m :: rat) \<noteq> of_int (2 ^ 53)"
        using False by (simp only: of_int_eq_iff) simp
      with m(2) have r2: "of_int ?m < pow2 53" unfolding pow2_53 by simp
      have ex: "exponentOf (toDouble x) = ?e"
      proof (rule exponentOf_unique [OF dp])
        show "pow2 ?e \<le> toDouble x"
          unfolding d pow2_split52 [of ?e] using m(1) by (simp add: mult_right_mono)
        show "toDouble x < pow2 (?e + 1)"
          unfolding d pow2_split53 [of ?e] using r2 by (simp add: mult_strict_right_mono)
      qed
      have "toDouble x / pow2 ?k = of_int ?m" unfolding d by simp
      then show ?thesis
        using toDouble_pos_eq [OF dp] unfolding ex by (simp add: d)
    qed
  qed
  consider "0 < x" | "x = 0" | "0 < - x" by linarith
  then show ?thesis
  proof cases
    case 1
    then show ?thesis by (rule pos)
  next
    case 2
    then show ?thesis by simp
  next
    case 3
    from pos [OF 3] show ?thesis by (simp add: toDouble_neg)
  qed
qed


section \<open>Rounding to cents\<close>

lemma toDouble_one: "toDouble 1 = 1"
  by code_simp

lemma centsOf_near:
  assumes "\<bar>x * 100 - of_int n\<bar> < 1 / 2"
  shows "centsOf x = n"
proof -
  from assms have b: "of_int n - 1 / 2 < x * 100" "x * 100 < of_int n + 1 / 2"
    by linarith+
  show ?thesis
  proof (cases "x < 0")
    case True
    have "of_int (- n) \<le> - x * 100 + 1 / 2" "- x * 100 + 1 / 2 < of_int (- n) + 1"
      using b by simp_all
    then have "\<lfloor>- x * 100 + 1 / 2\<rfloor> = - n" by (rule floor_unique)
    then show ?thesis using True by (simp add: centsOf_def)
  next
    case False
    have "of_int n \<le> x * 100 + 1 / 2" "x * 100 + 1 / 2 < of_int n + 1"
      using b by simp_all
    then have "\<lfloor>x * 100 + 1 / 2\<rfloor> = n" by (rule floor_unique)
    then show ?thesis using False by (simp add: centsOf_def)
  qed
qed

lemma centsOf_nonneg: "0 \<le> x \<Longrightarrow> 0 \<le> centsOf x"
  by (simp add: centsOf_def not_less)

lemma centsOf_mono_bound:
  assumes "0 \<le> x" "x * 100 < of_int n + 1 / 2"
  shows "centsOf x \<le> n"
proof -
  have "x * 100 + 1 / 2 < of_int (n + 1)" using assms(2) by simp
  then have "\<lfloor>x * 100 + 1 / 2\<rfloor> < n + 1" by (simp only: floor_less_iff)
  then show ?thesis using assms(1) by (simp add: centsOf_def not_less)
qed

lemma toFixedText_roundHalfAway2: "toFixedText x = roundHalfAway2 x"
proof -
  have h: "\<lfloor>1 / 2 :: rat\<rfloor> = 0" by linarith
  show ?thesis
    by (cases "x = 0") (auto simp: toFixedText_def centsOf_def roundHalfAway2_def h sgn_if)
qed

lemma toFixed2_roundHalfAway2: "toFixed2 x = toDouble (roundHalfAway2 x)"
  by (simp add: toFixed2_def toFixedText_roundHalfAway2)

lemma toFixed2_cents: "toFixed2 x = centsDouble (centsOf x)"
  by (simp add: toFixed2_def toFixedText_def centsDouble_def)

lemma centsDouble_mono: "a \<le> b \<Longrightarrow> centsDouble a \<le> centsDouble b"
  unfolding centsDouble_def by (intro toDouble_mono) (simp add: divide_right_mono)

lemma centsDouble_nonneg: "0 \<le> a \<Longrightarrow> 0 \<le> centsDouble a"
  unfolding centsDouble_def by (intro toDouble_nonneg) simp

lemma centsDouble_idem: "toDouble (centsDouble a) = centsDouble a"
  by (simp add: centsDouble_def toDouble_idem)

text \<open>A whole-cent double is within \<open>a / 2 ^ 53\<close> cents of its decimal.\<close>

lemma centsDouble_error:
  assumes "0 \<le> a"
  shows "\<bar>centsDouble a * 100 - of_int a\<bar> \<le> of_int a / 2 ^ 53"
proof -
  have "\<bar>toDouble (of_int a / 100) - of_int a / 100\<bar> \<le> \<bar>of_int a / 100\<bar> / 2 ^ 53"
    by (rule toDouble_error)
  moreover have "\<bar>(of_int a :: rat) / 100\<bar> = of_int a / 100" using assms by simp
  moreover have "\<bar>centsDouble a * 100 - of_int a\<bar>
                  = \<bar>toDouble (of_int a / 100) - of_int a / 100\<bar> * 100"
    unfolding centsDouble_def by (simp add: abs_if)
  ultimately show ?thesis by simp
qed

lemma small_part:
  assumes "0 \<le> a" "a < 2 ^ 50"
  shows "(of_int a :: rat) / 2 ^ 53 < 1 / 8"
proof -
  have "(of_int a :: rat) < of_int (2 ^ 50)" using assms(2) by (simp only: of_int_less_iff)
  then show ?thesis by simp
qed

lemma centsOf_centsDouble:
  assumes "0 \<le> a" "a < 2 ^ 50"
  shows "centsOf (centsDouble a) = a"
  using centsDouble_error [OF assms(1)] small_part [OF assms]
  by (intro centsOf_near) linarith

lemma toFixed2_centsDouble:
  assumes "0 \<le> a" "a < 2 ^ 50"
  shows "toFixed2 (centsDouble a) = centsDouble a"
  by (simp add: toFixed2_cents centsOf_centsDouble [OF assms])


section \<open>Pricing\<close>

lemma apply_discounting:
  "discounting cpo \<Longrightarrow>
     r_total (applyCouponToAmount amount cpo)
       = toFixed2 (toDouble (toDouble amount - rawDiscount amount cpo)) \<and>
     r_discount (applyCouponToAmount amount cpo) = toFixed2 (rawDiscount amount cpo)"
  by (auto simp: discounting_def applyCouponToAmount_def rawDiscount_def Let_def split: option.splits)

lemma apply_not_discounting:
  "\<not> discounting cpo \<Longrightarrow>
     r_total (applyCouponToAmount amount cpo) = toDouble amount \<and>
     r_discount (applyCouponToAmount amount cpo) = 0"
  by (auto simp: discounting_def applyCouponToAmount_def Let_def split: option.splits)

lemma percent_factor: "0 \<le> toDouble (percentPct v / 100) \<and> toDouble (percentPct v / 100) \<le> 1"
proof -
  have "0 \<le> percentPct v / 100" "percentPct v / 100 \<le> 1" by (simp_all add: percentPct_def)
  then show ?thesis using toDouble_nonneg toDouble_mono [of "percentPct v / 100" 1]
    by (simp add: toDouble_one)
qed

lemma percentDiscount_bounds:
  assumes "0 \<le> A" "toDouble A = A"
  shows "0 \<le> percentDiscount A v \<and> percentDiscount A v \<le> A"
proof -
  let ?q = "toDouble (percentPct v / 100)"
  from percent_factor [of v] have q: "0 \<le> ?q" "?q \<le> 1" by simp_all
  have "0 \<le> A * ?q" using assms(1) q(1) by simp
  then have 1: "0 \<le> toDouble (A * ?q)" by (rule toDouble_nonneg)
  have "A * ?q \<le> A * 1" using assms(1) q(2) by (intro mult_left_mono)
  then have "toDouble (A * ?q) \<le> toDouble A" using toDouble_mono [of "A * ?q" A] by simp
  with 1 show ?thesis unfolding percentDiscount_def assms(2) by simp
qed

lemma rawDiscount_bounds:
  assumes "0 \<le> amount"
  shows "0 \<le> rawDiscount amount cpo \<and> rawDiscount amount cpo \<le> toDouble amount"
proof -
  have A: "0 \<le> toDouble amount" using assms by (rule toDouble_nonneg)
  have f: "0 \<le> fixedDiscount (toDouble amount) v \<and> fixedDiscount (toDouble amount) v \<le> toDouble amount" for v
    using A by (simp add: fixedDiscount_def)
  show ?thesis
    using A f percentDiscount_bounds [OF A toDouble_idem]
    by (simp add: rawDiscount_def split: option.split)
qed

lemma toFixed2_nonneg: "0 \<le> x \<Longrightarrow> 0 \<le> toFixed2 x"
  unfolding toFixed2_cents by (intro centsDouble_nonneg centsOf_nonneg)

lemma total_nonneg:
  assumes "0 \<le> amount"
  shows "0 \<le> r_total (applyCouponToAmount amount cpo)"
proof (cases "discounting cpo")
  case True
  have "0 \<le> toDouble amount - rawDiscount amount cpo"
    using rawDiscount_bounds [OF assms, of cpo] by simp
  then have "0 \<le> toDouble (toDouble amount - rawDiscount amount cpo)" by (rule toDouble_nonneg)
  then show ?thesis using apply_discounting [OF True, of amount] by (simp add: toFixed2_nonneg)
next
  case False
  then show ?thesis using apply_not_discounting [OF False, of amount] assms
    by (simp add: toDouble_nonneg)
qed

text \<open>A whole-cent amount is not exceeded by the total.\<close>

lemma total_le_whole_cent_amount:
  assumes "0 \<le> a" "a < 2 ^ 50"
  shows "r_total (applyCouponToAmount (centsDouble a) cpo) \<le> centsDouble a"
proof (cases "discounting cpo")
  case True
  let ?A = "centsDouble a"
  let ?d = "rawDiscount ?A cpo"
  let ?x = "toDouble (?A - ?d)"
  have A: "0 \<le> ?A" using assms(1) by (rule centsDouble_nonneg)
  have d: "0 \<le> ?d" "?d \<le> ?A"
    using rawDiscount_bounds [OF A, of cpo] by (simp_all add: centsDouble_idem)
  have x0: "0 \<le> ?x" using d by (intro toDouble_nonneg) simp
  have "?x \<le> toDouble ?A" using d by (intro toDouble_mono) simp
  then have xA: "?x \<le> ?A" by (simp add: centsDouble_idem)
  have "?A * 100 < of_int a + 1 / 2"
    using centsDouble_error [OF assms(1)] small_part [OF assms] by linarith
  with xA have "?x * 100 < of_int a + 1 / 2" by linarith
  from centsOf_mono_bound [OF x0 this] have "centsDouble (centsOf ?x) \<le> ?A"
    by (rule centsDouble_mono)
  then show ?thesis
    using apply_discounting [OF True, of ?A] by (simp add: toFixed2_cents centsDouble_idem)
next
  case False
  then show ?thesis using apply_not_discounting [OF False, of "centsDouble a"]
    by (simp add: centsDouble_idem)
qed

lemma cents_triangle:
  "\<bar>t * 100 - (p - q)\<bar> \<le> \<bar>t - (u - w)\<bar> * 100 + \<bar>u * 100 - p\<bar> + \<bar>w * 100 - q\<bar>"
  for t p q u w :: rat
proof -
  have "\<bar>(t - (u - w)) * 100\<bar> = \<bar>t - (u - w)\<bar> * \<bar>100\<bar>" by (rule abs_mult)
  then have e: "\<bar>t - (u - w)\<bar> * 100 = \<bar>t * 100 - u * 100 + w * 100\<bar>"
    by (simp add: algebra_simps)
  show ?thesis unfolding e by linarith
qed

text \<open>
  An amount in whole cents with an unrounded discount in whole cents: the results in cents.
\<close>

lemma whole_cents_outputs:
  assumes "0 \<le> a" "a < 2 ^ 50" "0 \<le> k" "k \<le> a" "discounting cpo"
    "rawDiscount (centsDouble a) cpo = centsDouble k"
  shows "r_discount (applyCouponToAmount (centsDouble a) cpo) = centsDouble k \<and>
         r_total (applyCouponToAmount (centsDouble a) cpo) = centsDouble (a - k)"
proof -
  let ?A = "centsDouble a"
  have m: "k < 2 ^ 50" using assms(2,4) by simp
  have eA: "\<bar>?A * 100 - of_int a\<bar> \<le> of_int a / 2 ^ 53"
    by (rule centsDouble_error [OF assms(1)])
  have eM: "\<bar>centsDouble k * 100 - of_int k\<bar> \<le> of_int k / 2 ^ 53"
    by (rule centsDouble_error [OF assms(3)])
  have sA: "(of_int a :: rat) / 2 ^ 53 < 1 / 8" by (rule small_part [OF assms(1,2)])
  have sM: "(of_int k :: rat) / 2 ^ 53 < 1 / 8" by (rule small_part [OF assms(3) m])
  let ?y = "?A - centsDouble k"
  have y0: "0 \<le> ?y" using centsDouble_mono [OF assms(4)] by simp
  have yA: "?y \<le> ?A" using centsDouble_nonneg [OF assms(3)] by simp
  have ey: "\<bar>toDouble ?y - ?y\<bar> \<le> ?y / 2 ^ 53"
    using toDouble_error [of ?y] y0 by simp
  define B :: rat where "B = (of_int a + of_int a / 2 ^ 53) / 100 / 2 ^ 53"
  have "?y / 2 ^ 53 \<le> ?A / 2 ^ 53" using yA by (simp add: divide_right_mono)
  moreover have "?A * 100 \<le> of_int a + of_int a / 2 ^ 53" using eA by linarith
  then have "?A / 2 ^ 53 \<le> B"
    unfolding B_def by (simp add: divide_right_mono pos_le_divide_eq)
  ultimately have ey2: "\<bar>toDouble ?y - ?y\<bar> \<le> B"
    using ey by linarith
  have B: "B * 100 < 1 / 4"
  proof -
    have "B * 100 = of_int a / 2 ^ 53 + of_int a / 2 ^ 53 / 2 ^ 53"
      unfolding B_def by (simp add: field_simps)
    moreover have "(of_int a :: rat) / 2 ^ 53 / 2 ^ 53 \<le> of_int a / 2 ^ 53"
      using assms(1) by (simp add: field_simps)
    ultimately show ?thesis using sA by linarith
  qed
  define E where "E = \<bar>toDouble ?y - ?y\<bar>"
  have ey3: "E * 100 < 1 / 4" using ey2 B unfolding E_def [symmetric] by linarith
  have "\<bar>toDouble ?y * 100 - of_int (a - k)\<bar>
          \<le> E * 100 + \<bar>?A * 100 - of_int a\<bar> + \<bar>centsDouble k * 100 - of_int k\<bar>"
    unfolding E_def of_int_diff by (rule cents_triangle)
  also have "\<dots> < 1 / 4 + 1 / 8 + 1 / 8" using ey3 eA eM sA sM by linarith
  finally have "\<bar>toDouble ?y * 100 - of_int (a - k)\<bar> < 1 / 2" by simp
  then have t: "centsOf (toDouble ?y) = a - k" by (rule centsOf_near)
  show ?thesis
    using apply_discounting [OF assms(5), of "centsDouble a"] t
    by (simp add: assms(6) centsDouble_idem toFixed2_centsDouble [OF assms(3) m]
        toFixed2_cents [of "toDouble ?y"])
qed

text \<open>A fixed coupon in whole cents on an amount in whole cents.\<close>

lemma fixed_whole_cents:
  assumes "0 \<le> a" "a < 2 ^ 50" "0 \<le> c" "kind cp = ''fixed''" "val cp = centsDouble c"
  shows "r_discount (applyCouponToAmount (centsDouble a) (Some cp)) = centsDouble (min a c) \<and>
         r_total (applyCouponToAmount (centsDouble a) (Some cp)) = centsDouble (a - min a c)"
proof -
  let ?A = "centsDouble a"
  let ?m = "min a c"
  have m: "0 \<le> ?m" "?m \<le> a" using assms(1-3) by simp_all
  have d: "fixedDiscount ?A (centsDouble c) = centsDouble ?m"
  proof (cases "a \<le> c")
    case True
    then show ?thesis
      using centsDouble_mono [OF True] centsDouble_nonneg [OF assms(1)]
      by (simp add: fixedDiscount_def min_def max_def)
  next
    case False
    then have "c \<le> a" by simp
    then show ?thesis
      using centsDouble_mono [OF \<open>c \<le> a\<close>] centsDouble_nonneg [OF assms(3)]
      by (simp add: fixedDiscount_def min_def max_def)
  qed
  have r: "rawDiscount ?A (Some cp) = centsDouble ?m"
    using assms(4,5) d by (simp add: rawDiscount_def centsDouble_idem)
  have k: "discounting (Some cp)" using assms(4) by (simp add: discounting_def)
  show ?thesis by (rule whole_cents_outputs [OF assms(1,2) m k r])
qed

lemma fixedDiscount_clamp: "0 \<le> amount \<Longrightarrow> fixedDiscount amount v = clamp v 0 amount"
  by (auto simp: fixedDiscount_def clamp_def max_def min_def)

lemma percentPct_clamp: "percentPct v = clamp v 0 100"
  by (auto simp: percentPct_def clamp_def max_def min_def)

lemma double_values:
  "toDouble 100 = 100" "toDouble 30 = 30" "toDouble 70 = 70" "toDouble 50 = 50"
  "toDouble 20 = 20" "toDouble 10 = 10" "toDouble 999 = 999" "toDouble 40 = 40"
  by code_simp+

lemma fixed2_values:
  "toFixed2 70 = 70" "toFixed2 30 = 30" "toFixed2 40 = 40" "toFixed2 10 = 10" "toFixed2 0 = 0"
  by code_simp+

lemma reference_percent: "toDouble (50 * toDouble (1 / 5)) = 10"
  by code_simp

text \<open>
  C5 (as amended). The four reference cases of the spec hold of the values returned. For a
  base amount \<open>\<ge> 0\<close>, with \<open>A\<close> and \<open>V\<close> the amount and the coupon value as binary64
  numbers: for a fixed coupon the value named \<open>discount\<close> in the source is
  \<open>clamp(V, 0, A)\<close>; the discount returned is that value after \<open>toFixed(2)\<close> and the
  total returned is \<open>A - clamp(V, 0, A)\<close> after \<open>toFixed(2)\<close>; when the amount and
  the coupon value are numbers of whole cents (below \<open>2^50\<close> cents), the discount
  returned is the number of \<open>min(amount, value)\<close> cents and the total returned is the
  number of the remaining cents. For a percent coupon the percentage is
  \<open>clamp(V, 0, 100)\<close>, within \<open>[0, 100]\<close>, and the outputs are \<open>A * (pct / 100)\<close>
  and \<open>A\<close> minus it, each after \<open>toFixed(2)\<close>.
\<close>

theorem pricing_reference_cases_and_clamping:
  assumes "0 \<le> amount"
  shows "r_total (applyCouponToAmount 100 (Some (cp\<lparr>kind := ''fixed'', val := 30\<rparr>))) = 70 \<and>
         r_discount (applyCouponToAmount 100 (Some (cp\<lparr>kind := ''fixed'', val := 30\<rparr>))) = 30 \<and>
         r_total (applyCouponToAmount 50 (Some (cp\<lparr>kind := ''percent'', val := 20\<rparr>))) = 40 \<and>
         r_discount (applyCouponToAmount 50 (Some (cp\<lparr>kind := ''percent'', val := 20\<rparr>))) = 10 \<and>
         r_total (applyCouponToAmount 10 (Some (cp\<lparr>kind := ''fixed'', val := 999\<rparr>))) = 0 \<and>
         r_discount (applyCouponToAmount 10 (Some (cp\<lparr>kind := ''fixed'', val := 999\<rparr>))) = 10 \<and>
         applyCouponToAmount 100 None = \<lparr>r_total = 100, r_discount = 0, r_label = None\<rparr> \<and>
         fixedDiscount (toDouble amount) (toDouble v) = clamp (toDouble v) 0 (toDouble amount) \<and>
         r_discount (applyCouponToAmount amount (Some (cp\<lparr>kind := ''fixed'', val := v\<rparr>)))
           = toFixed2 (clamp (toDouble v) 0 (toDouble amount)) \<and>
         r_total (applyCouponToAmount amount (Some (cp\<lparr>kind := ''fixed'', val := v\<rparr>)))
           = toFixed2 (toDouble (toDouble amount - clamp (toDouble v) 0 (toDouble amount))) \<and>
         (0 \<le> a \<and> a < 2 ^ 50 \<and> 0 \<le> c \<longrightarrow>
            r_discount (applyCouponToAmount (centsDouble a)
                          (Some (cp\<lparr>kind := ''fixed'', val := centsDouble c\<rparr>)))
              = centsDouble (min a c) \<and>
            r_total (applyCouponToAmount (centsDouble a)
                       (Some (cp\<lparr>kind := ''fixed'', val := centsDouble c\<rparr>)))
              = centsDouble (a - min a c)) \<and>
         percentPct (toDouble v) = clamp (toDouble v) 0 100 \<and>
         0 \<le> percentPct (toDouble v) \<and> percentPct (toDouble v) \<le> 100 \<and>
         r_discount (applyCouponToAmount amount (Some (cp\<lparr>kind := ''percent'', val := v\<rparr>)))
           = toFixed2 (toDouble (toDouble amount * toDouble (clamp (toDouble v) 0 100 / 100))) \<and>
         r_total (applyCouponToAmount amount (Some (cp\<lparr>kind := ''percent'', val := v\<rparr>)))
           = toFixed2 (toDouble (toDouble amount
               - toDouble (toDouble amount * toDouble (clamp (toDouble v) 0 100 / 100))))"
proof -
  have A: "0 \<le> toDouble amount" using assms by (rule toDouble_nonneg)
  have r1: "r_total (applyCouponToAmount 100 (Some (cp\<lparr>kind := ''fixed'', val := 30\<rparr>))) = 70"
    "r_discount (applyCouponToAmount 100 (Some (cp\<lparr>kind := ''fixed'', val := 30\<rparr>))) = 30"
    by (simp_all add: applyCouponToAmount_def fixedDiscount_def Let_def double_values fixed2_values)
  have r2: "r_total (applyCouponToAmount 50 (Some (cp\<lparr>kind := ''percent'', val := 20\<rparr>))) = 40"
    "r_discount (applyCouponToAmount 50 (Some (cp\<lparr>kind := ''percent'', val := 20\<rparr>))) = 10"
    by (simp_all add: applyCouponToAmount_def percentDiscount_def percentPct_def Let_def
        double_values fixed2_values reference_percent)
  have r3: "r_total (applyCouponToAmount 10 (Some (cp\<lparr>kind := ''fixed'', val := 999\<rparr>))) = 0"
    "r_discount (applyCouponToAmount 10 (Some (cp\<lparr>kind := ''fixed'', val := 999\<rparr>))) = 10"
    by (simp_all add: applyCouponToAmount_def fixedDiscount_def Let_def double_values fixed2_values)
  have r4: "applyCouponToAmount 100 None = \<lparr>r_total = 100, r_discount = 0, r_label = None\<rparr>"
    by (simp add: applyCouponToAmount_def double_values)
  have f: "fixedDiscount (toDouble amount) (toDouble v) = clamp (toDouble v) 0 (toDouble amount)"
    by (rule fixedDiscount_clamp [OF A])
  have g1: "r_discount (applyCouponToAmount amount (Some (cp\<lparr>kind := ''fixed'', val := v\<rparr>)))
           = toFixed2 (clamp (toDouble v) 0 (toDouble amount))"
    and g2: "r_total (applyCouponToAmount amount (Some (cp\<lparr>kind := ''fixed'', val := v\<rparr>)))
           = toFixed2 (toDouble (toDouble amount - clamp (toDouble v) 0 (toDouble amount)))"
    by (simp_all add: applyCouponToAmount_def f Let_def)
  have w: "r_discount (applyCouponToAmount (centsDouble a)
                          (Some (cp\<lparr>kind := ''fixed'', val := centsDouble c\<rparr>)))
              = centsDouble (min a c) \<and>
            r_total (applyCouponToAmount (centsDouble a)
                       (Some (cp\<lparr>kind := ''fixed'', val := centsDouble c\<rparr>)))
              = centsDouble (a - min a c)"
    if "0 \<le> a" "a < 2 ^ 50" "0 \<le> c"
    using fixed_whole_cents [OF that, of "cp\<lparr>kind := ''fixed'', val := centsDouble c\<rparr>"] by simp
  have p: "percentPct (toDouble v) = clamp (toDouble v) 0 100" by (rule percentPct_clamp)
  have pb: "0 \<le> percentPct (toDouble v)" "percentPct (toDouble v) \<le> 100"
    by (simp_all add: percentPct_def)
  have h1: "r_discount (applyCouponToAmount amount (Some (cp\<lparr>kind := ''percent'', val := v\<rparr>)))
           = toFixed2 (toDouble (toDouble amount * toDouble (clamp (toDouble v) 0 100 / 100)))"
    and h2: "r_total (applyCouponToAmount amount (Some (cp\<lparr>kind := ''percent'', val := v\<rparr>)))
           = toFixed2 (toDouble (toDouble amount
               - toDouble (toDouble amount * toDouble (clamp (toDouble v) 0 100 / 100))))"
    by (simp_all add: applyCouponToAmount_def percentDiscount_def p Let_def)
  show ?thesis
    unfolding r1 r2 r3 r4 g1 g2 h1 h2 using f w p pb by blast
qed

text \<open>
  C5 as stated fails in its general rule for fixed coupons: a fixed coupon of 0.005 on 100
  returns the discount 0.01, which is not \<open>clamp(0.005, 0, 100)\<close>.
\<close>

theorem pricing_clamp_counterexample:
  "r_discount (applyCouponToAmount 100 (Some (demoCoupon\<lparr>kind := ''fixed'', val := toDouble (1 / 200)\<rparr>)))
     \<noteq> clamp (toDouble (1 / 200)) 0 100"
  by code_simp

lemma demo_fixed_facts:
  "kind (demoCoupon\<lparr>kind := ''fixed'', val := centsDouble 500\<rparr>) = ''fixed''"
  "val (demoCoupon\<lparr>kind := ''fixed'', val := centsDouble 500\<rparr>) = centsDouble 500"
  "discounting (Some (demoCoupon\<lparr>kind := ''percent'', val := 50\<rparr>))"
  "\<not> discounting None"
  by (simp_all add: discounting_def)

theorem pricing_reference_cases_and_clamping_witness:
  "(0::rat) \<le> 100 \<and> (0::int) \<le> 1999 \<and> (1999::int) < 2 ^ 50 \<and> (0::int) \<le> 500 \<and>
   r_total (applyCouponToAmount 100 (Some (demoCoupon\<lparr>kind := ''fixed'', val := 30\<rparr>))) = 70 \<and>
   r_discount (applyCouponToAmount (centsDouble 1999)
      (Some (demoCoupon\<lparr>kind := ''fixed'', val := centsDouble 500\<rparr>))) = centsDouble 500 \<and>
   r_total (applyCouponToAmount (centsDouble 1999)
      (Some (demoCoupon\<lparr>kind := ''fixed'', val := centsDouble 500\<rparr>))) = centsDouble 1499 \<and>
   r_discount (applyCouponToAmount 100 (Some (demoCoupon\<lparr>kind := ''fixed'', val := 250\<rparr>)))
     = toFixed2 (clamp (toDouble 250) 0 (toDouble 100)) \<and>
   percentPct (toDouble 250) \<le> 100"
  using pricing_reference_cases_and_clamping
    [where amount = 100 and v = 250 and a = 1999 and c = 500 and cp = demoCoupon]
  by simp

text \<open>
  C6 (as amended). For a base amount \<open>\<ge> 0\<close>: with a coupon of kind fixed or percent,
  total and discount are the binary64 values \<open>amount - d\<close> and \<open>d\<close>, each rounded
  once, at the end, to 2 decimals half away from zero (and read back as a binary64
  number), where \<open>d\<close> is the unrounded discount and \<open>0 \<le> d \<le> amount\<close>; without a
  coupon, or with a coupon of another kind, total is the amount as it is and discount is
  0. The total is never negative; for an amount of whole cents (below \<open>2^50\<close> cents)
  \<open>total \<le> amount\<close>; when the unrounded discount is a number of whole cents too,
  discount and total are the numbers of these cents and of the remaining cents, so that
  \<open>total = amount - discount\<close> holds exactly in cents; that is the case of every
  fixed coupon whose value is a number of whole cents.
\<close>

theorem pricing_rounding:
  assumes "0 \<le> amount"
  shows "(discounting cpo \<longrightarrow>
            r_total (applyCouponToAmount amount cpo)
              = toDouble (roundHalfAway2 (toDouble (toDouble amount - rawDiscount amount cpo))) \<and>
            r_discount (applyCouponToAmount amount cpo)
              = toDouble (roundHalfAway2 (rawDiscount amount cpo))) \<and>
         (\<not> discounting cpo \<longrightarrow>
            r_total (applyCouponToAmount amount cpo) = toDouble amount \<and>
            r_discount (applyCouponToAmount amount cpo) = 0) \<and>
         0 \<le> rawDiscount amount cpo \<and> rawDiscount amount cpo \<le> toDouble amount \<and>
         0 \<le> r_total (applyCouponToAmount amount cpo) \<and>
         (0 \<le> a \<and> a < 2 ^ 50 \<and> amount = centsDouble a \<longrightarrow>
            r_total (applyCouponToAmount amount cpo) \<le> amount) \<and>
         (0 \<le> a \<and> a < 2 ^ 50 \<and> 0 \<le> k \<and> k \<le> a \<and> amount = centsDouble a \<and>
          discounting cpo \<and> rawDiscount amount cpo = centsDouble k \<longrightarrow>
            r_discount (applyCouponToAmount amount cpo) = centsDouble k \<and>
            r_total (applyCouponToAmount amount cpo) = centsDouble (a - k)) \<and>
         (0 \<le> a \<and> a < 2 ^ 50 \<and> 0 \<le> c \<and> amount = centsDouble a \<and>
          cpo = Some cp \<and> kind cp = ''fixed'' \<and> val cp = centsDouble c \<longrightarrow>
            r_discount (applyCouponToAmount amount cpo) = centsDouble (min a c) \<and>
            r_total (applyCouponToAmount amount cpo) = centsDouble (a - min a c))"
proof -
  have d: "discounting cpo \<Longrightarrow>
            r_total (applyCouponToAmount amount cpo)
              = toDouble (roundHalfAway2 (toDouble (toDouble amount - rawDiscount amount cpo))) \<and>
            r_discount (applyCouponToAmount amount cpo)
              = toDouble (roundHalfAway2 (rawDiscount amount cpo))"
    using apply_discounting [of cpo amount] by (simp add: toFixed2_roundHalfAway2)
  have b: "0 \<le> rawDiscount amount cpo" "rawDiscount amount cpo \<le> toDouble amount"
    using rawDiscount_bounds [OF assms, of cpo] by simp_all
  have le: "r_total (applyCouponToAmount amount cpo) \<le> amount"
    if "0 \<le> a" "a < 2 ^ 50" "amount = centsDouble a"
    using total_le_whole_cent_amount [OF that(1,2), of cpo] that(3) by simp
  have eq: "r_discount (applyCouponToAmount amount cpo) = centsDouble (min a c) \<and>
            r_total (applyCouponToAmount amount cpo) = centsDouble (a - min a c)"
    if "0 \<le> a" "a < 2 ^ 50" "0 \<le> c" "amount = centsDouble a" "cpo = Some cp"
      "kind cp = ''fixed''" "val cp = centsDouble c"
    using fixed_whole_cents [OF that(1,2,3,6,7)] that(4,5) by simp
  have wc: "r_discount (applyCouponToAmount amount cpo) = centsDouble k \<and>
            r_total (applyCouponToAmount amount cpo) = centsDouble (a - k)"
    if "0 \<le> a" "a < 2 ^ 50" "0 \<le> k" "k \<le> a" "amount = centsDouble a" "discounting cpo"
      "rawDiscount amount cpo = centsDouble k"
    using whole_cents_outputs [OF that(1-4), of cpo] that(5-7) by simp
  show ?thesis
    using d apply_not_discounting [of cpo amount] b total_nonneg [OF assms, of cpo] le wc eq
    by blast
qed

text \<open>
  C6 as stated fails: 50 percent off 0.25 is 0.125, which rounds to 0.13 both as the
  discount and as the total, and \<open>0.25 - 0.13 = 0.12\<close>. An amount that is not in
  whole cents can also be exceeded by the total: a fixed coupon of 1/512 on 65/512
  (0.126953125) leaves 0.125, and the total returned is 0.13.
\<close>

theorem pricing_equation_counterexample:
  "r_total (applyCouponToAmount (1 / 4) (Some (demoCoupon\<lparr>kind := ''percent'', val := 50\<rparr>)))
     \<noteq> 1 / 4 - r_discount (applyCouponToAmount (1 / 4) (Some (demoCoupon\<lparr>kind := ''percent'', val := 50\<rparr>))) \<and>
   65 / 512 < r_total (applyCouponToAmount (65 / 512) (Some (demoCoupon\<lparr>kind := ''fixed'', val := 1 / 512\<rparr>)))"
  by code_simp

lemma demo_percent_1999:
  "r_total (applyCouponToAmount (centsDouble 1999) (Some (demoCoupon\<lparr>kind := ''percent'', val := 50\<rparr>)))
     = centsDouble 999"
  "r_discount (applyCouponToAmount (centsDouble 1999) (Some (demoCoupon\<lparr>kind := ''percent'', val := 50\<rparr>)))
     = centsDouble 999"
  "rawDiscount (centsDouble 1999) (Some (demoCoupon\<lparr>kind := ''percent'', val := 50\<rparr>))
     = toDouble (centsDouble 1999 / 2)"
  "rawDiscount (centsDouble 2000) (Some (demoCoupon\<lparr>kind := ''percent'', val := 50\<rparr>))
     = centsDouble 1000"
  by code_simp+

theorem pricing_rounding_witness:
  "(0::rat) \<le> centsDouble 1999 \<and> (0::rat) \<le> 1 / 8 \<and>
   (0::int) \<le> 1999 \<and> (1999::int) < 2 ^ 50 \<and> (0::int) \<le> 500 \<and>
   discounting (Some (demoCoupon\<lparr>kind := ''percent'', val := 50\<rparr>)) \<and>
   rawDiscount (centsDouble 1999) (Some (demoCoupon\<lparr>kind := ''percent'', val := 50\<rparr>))
     = toDouble (centsDouble 1999 / 2) \<and>
   r_total (applyCouponToAmount (centsDouble 1999) (Some (demoCoupon\<lparr>kind := ''percent'', val := 50\<rparr>)))
     = centsDouble 999 \<and>
   r_discount (applyCouponToAmount (centsDouble 1999) (Some (demoCoupon\<lparr>kind := ''percent'', val := 50\<rparr>)))
     = centsDouble 999 \<and>
   centsDouble 999 \<le> centsDouble 1999 \<and>
   toDouble (roundHalfAway2 (toDouble (centsDouble 1999 / 2))) = centsDouble 999 \<and>
   (0::int) \<le> 2000 \<and> (2000::int) < 2 ^ 50 \<and> (0::int) \<le> 1000 \<and> (1000::int) \<le> 2000 \<and>
   rawDiscount (centsDouble 2000) (Some (demoCoupon\<lparr>kind := ''percent'', val := 50\<rparr>))
     = centsDouble 1000 \<and>
   r_discount (applyCouponToAmount (centsDouble 2000) (Some (demoCoupon\<lparr>kind := ''percent'', val := 50\<rparr>)))
     = centsDouble 1000 \<and>
   r_total (applyCouponToAmount (centsDouble 2000) (Some (demoCoupon\<lparr>kind := ''percent'', val := 50\<rparr>)))
     = centsDouble 1000 \<and>
   \<not> discounting None \<and> r_total (applyCouponToAmount (1 / 8) None) = toDouble (1 / 8) \<and>
   kind (demoCoupon\<lparr>kind := ''fixed'', val := centsDouble 500\<rparr>) = ''fixed'' \<and>
   val (demoCoupon\<lparr>kind := ''fixed'', val := centsDouble 500\<rparr>) = centsDouble 500 \<and>
   r_discount (applyCouponToAmount (centsDouble 1999)
      (Some (demoCoupon\<lparr>kind := ''fixed'', val := centsDouble 500\<rparr>))) = centsDouble 500 \<and>
   r_total (applyCouponToAmount (centsDouble 1999)
      (Some (demoCoupon\<lparr>kind := ''fixed'', val := centsDouble 500\<rparr>))) = centsDouble 1499"
proof -
  have a: "(0::rat) \<le> centsDouble 1999" "(0::rat) \<le> 1 / 8" "(0::rat) \<le> centsDouble 2000"
    by (simp_all add: centsDouble_nonneg)
  show ?thesis
    using pricing_rounding [OF a(1), where cpo = "Some (demoCoupon\<lparr>kind := ''percent'', val := 50\<rparr>)"
        and a = 1999 and k = 0 and c = 500 and cp = demoCoupon]
      pricing_rounding [OF a(3), where cpo = "Some (demoCoupon\<lparr>kind := ''percent'', val := 50\<rparr>)"
        and a = 2000 and k = 1000 and c = 0 and cp = demoCoupon]
      pricing_rounding [OF a(2), where cpo = None and a = 0 and k = 0 and c = 0 and cp = demoCoupon]
      pricing_rounding [OF a(1),
        where cpo = "Some (demoCoupon\<lparr>kind := ''fixed'', val := centsDouble 500\<rparr>)"
        and a = 1999 and k = 0 and c = 500
        and cp = "demoCoupon\<lparr>kind := ''fixed'', val := centsDouble 500\<rparr>"]
      a demo_fixed_facts demo_percent_1999
    by simp
qed


section \<open>Coupon ledger: increments, the cap and validation\<close>

lemma findIndex_Some:
  "findIndex P xs = Some i \<Longrightarrow>
     i < length xs \<and> P (xs ! i) \<and> find P xs = Some (xs ! i) \<and> (\<forall>j<i. \<not> P (xs ! j))"
proof (induction xs arbitrary: i)
  case Nil
  then show ?case by simp
next
  case (Cons x xs)
  show ?case
  proof (cases "P x")
    case True
    with Cons.prems show ?thesis by simp
  next
    case False
    with Cons.prems obtain k where k: "findIndex P xs = Some k" "i = Suc k"
      by auto
    from Cons.IH [OF k(1)] False k(2) show ?thesis
      by (auto simp: less_Suc_eq_0_disj)
  qed
qed

lemma findIndex_None: "findIndex P xs = None \<longleftrightarrow> find P xs = None"
  by (induction xs) auto

lemma find_Some_findIndex: "find P xs = Some y \<Longrightarrow> \<exists>i. findIndex P xs = Some i \<and> xs ! i = y"
  by (cases "findIndex P xs") (auto simp: findIndex_None dest: findIndex_Some)

lemma increment_missing:
  "couponFor c arr = None \<Longrightarrow> incrementCouponUse c arr = (False, arr)"
  by (simp add: couponFor_def incrementCouponUse_def findIndex_None [symmetric])

lemma increment_unusable:
  assumes "couponFor c arr = Some cp" "\<not> active cp \<or> exhausted cp"
  shows "incrementCouponUse c arr = (False, arr)"
proof -
  from assms(1) obtain i where i: "findIndex (\<lambda>x. toUpperCase (code x) = normCode c) arr = Some i"
    "arr ! i = cp"
    unfolding couponFor_def by (blast dest: find_Some_findIndex)
  then show ?thesis using assms(2)
    by (auto simp: incrementCouponUse_def exhausted_def Let_def)
qed

lemma increment_usable:
  assumes "couponFor c arr = Some cp" "active cp" "\<not> exhausted cp"
  shows "\<exists>idx<length arr. arr ! idx = cp \<and>
           (\<forall>j<idx. toUpperCase (code (arr ! j)) \<noteq> normCode c) \<and>
           incrementCouponUse c arr = (True, arr[idx := cp\<lparr>uses := uses cp + 1\<rparr>])"
proof -
  from assms(1) obtain i where i: "findIndex (\<lambda>x. toUpperCase (code x) = normCode c) arr = Some i"
    "arr ! i = cp"
    unfolding couponFor_def by (blast dest: find_Some_findIndex)
  from findIndex_Some [OF i(1)] have "i < length arr"
    "\<forall>j<i. toUpperCase (code (arr ! j)) \<noteq> normCode c"
    by simp_all
  moreover have "incrementCouponUse c arr = (True, arr[i := cp\<lparr>uses := uses cp + 1\<rparr>])"
    using i assms(2,3) by (auto simp: incrementCouponUse_def exhausted_def Let_def)
  ultimately show ?thesis using i(2) by blast
qed

text \<open>
  C3. \<open>incrementCouponUse\<close> looks at the ledger as it is when called: with no coupon
  for the code, or an inactive or exhausted one, it returns false and the array is the one
  read; otherwise it returns true and the array written differs from the one read only at
  the index of that coupon (the first with the code), whose \<open>uses\<close> is one more.
\<close>

theorem incrementCouponUse_revalidates:
  "(couponFor c arr = None \<longrightarrow> incrementCouponUse c arr = (False, arr)) \<and>
   (couponFor c arr = Some cp \<and> (\<not> active cp \<or> exhausted cp) \<longrightarrow>
      incrementCouponUse c arr = (False, arr)) \<and>
   (couponFor c arr = Some cp \<and> active cp \<and> \<not> exhausted cp \<longrightarrow>
      (\<exists>idx<length arr. arr ! idx = cp \<and>
         (\<forall>j<idx. toUpperCase (code (arr ! j)) \<noteq> normCode c) \<and>
         incrementCouponUse c arr = (True, arr[idx := cp\<lparr>uses := uses cp + 1\<rparr>])))"
  using increment_missing increment_unusable increment_usable by blast

lemma withinCap_increment:
  assumes "ledgerWithinCap arr"
  shows "ledgerWithinCap (snd (incrementCouponUse c arr))"
proof (cases "findIndex (\<lambda>x. toUpperCase (code x) = normCode c) arr")
  case None
  then show ?thesis using assms by (simp add: incrementCouponUse_def)
next
  case (Some i)
  from findIndex_Some [OF Some] have i: "i < length arr" by simp
  have "withinCap ((arr ! i)\<lparr>uses := uses (arr ! i) + 1\<rparr>)"
    if "\<not> (maxUses (arr ! i) > 0 \<and> uses (arr ! i) \<ge> maxUses (arr ! i))"
    using that by (auto simp: withinCap_def)
  then show ?thesis using assms Some i
    by (auto simp: incrementCouponUse_def ledgerWithinCap_def Let_def list_all_iff
             dest!: set_update_subset_insert [THEN subsetD])
qed

lemma withinCap_add:
  assumes "ledgerWithinCap arr" "addCoupon c ty v m now arr = Inr (cp, arr')"
  shows "ledgerWithinCap arr' \<and> uses cp = 0 \<and> arr' = arr @ [cp]"
  using assms
  by (auto simp: addCoupon_def ledgerWithinCap_def withinCap_def Let_def split: if_splits)

lemma withinCap_delete:
  "ledgerWithinCap arr \<Longrightarrow> ledgerWithinCap (snd (deleteCoupon c arr))"
  by (auto simp: deleteCoupon_def ledgerWithinCap_def list_all_iff Let_def)

lemma withinCap_step: "ledgerWithinCap arr \<Longrightarrow> ledgerWithinCap (ledgerStep arr op)"
proof (cases op)
  case (AddCoupon c ty v m now)
  assume a: "ledgerWithinCap arr"
  show ?thesis
  proof (cases "addCoupon c ty v m now arr")
    case (Inl e)
    then show ?thesis using a AddCoupon by simp
  next
    case (Inr p)
    obtain cp arr' where p: "p = (cp, arr')" by (cases p)
    from withinCap_add [OF a, of c ty v m now cp arr'] Inr p have "ledgerWithinCap arr'"
      by blast
    then show ?thesis using AddCoupon Inr p by simp
  qed
qed (simp_all add: withinCap_increment withinCap_delete)

lemma withinCap_run: "ledgerWithinCap arr \<Longrightarrow> ledgerWithinCap (runLedger arr ops)"
  unfolding runLedger_def
  by (induction ops arbitrary: arr) (simp_all add: withinCap_step)

lemma increment_changed_within:
  assumes "i < length arr" "uses (snd (incrementCouponUse c arr) ! i) \<noteq> uses (arr ! i)"
    "maxUses (arr ! i) > 0"
  shows "uses (snd (incrementCouponUse c arr) ! i) = uses (arr ! i) + 1 \<and>
         uses (snd (incrementCouponUse c arr) ! i) \<le> maxUses (snd (incrementCouponUse c arr) ! i)"
proof (cases "findIndex (\<lambda>x. toUpperCase (code x) = normCode c) arr")
  case None
  then show ?thesis using assms by (simp add: incrementCouponUse_def)
next
  case (Some k)
  from findIndex_Some [OF Some] have k: "k < length arr" by simp
  show ?thesis using assms Some k
    by (cases "i = k") (auto simp: incrementCouponUse_def Let_def split: if_splits)
qed

text \<open>
  C2. A ledger in which every coupon with \<open>maxUses > 0\<close> has \<open>uses \<le> maxUses\<close> is
  still such a ledger after any sequence of \<open>addCoupon\<close>, \<open>deleteCoupon\<close>,
  \<open>incrementCouponUse\<close>, \<open>findCoupon\<close> and \<open>listCoupons\<close>, and so is every ledger
  built from the empty one; a coupon added starts at \<open>uses = 0\<close>, and a coupon whose
  \<open>uses\<close> \<open>incrementCouponUse\<close> changes gains exactly 1 and ends within its cap.
\<close>

theorem ledger_cap_invariant:
  assumes "ledgerWithinCap arr"
  shows "ledgerWithinCap (runLedger arr ops) \<and>
         ledgerWithinCap (runLedger [] ops) \<and>
         (addCoupon c ty v m now arr = Inr (cp, arr') \<longrightarrow>
            uses cp = 0 \<and> arr' = arr @ [cp] \<and> ledgerWithinCap arr') \<and>
         ledgerWithinCap (snd (incrementCouponUse k arr)) \<and>
         (i < length arr \<and> maxUses (arr ! i) > 0 \<and>
          uses (snd (incrementCouponUse k arr) ! i) \<noteq> uses (arr ! i) \<longrightarrow>
            uses (snd (incrementCouponUse k arr) ! i) = uses (arr ! i) + 1 \<and>
            uses (snd (incrementCouponUse k arr) ! i)
              \<le> maxUses (snd (incrementCouponUse k arr) ! i))"
proof -
  have e: "ledgerWithinCap []" by (simp add: ledgerWithinCap_def)
  show ?thesis
    using withinCap_run [OF assms, of ops] withinCap_run [OF e, of ops]
      withinCap_add [OF assms, of c ty v m now cp arr'] withinCap_increment [OF assms, of k]
      increment_changed_within [of i arr k]
    by blast
qed

lemma lower_upper_char: "toLowerChar (toUpperChar c) = toLowerChar c"
proof -
  have "\<forall>c. toLowerChar (toUpperChar c) = toLowerChar c" by code_simp
  then show ?thesis by blast
qed

lemma upper_lower_char: "toUpperChar (toLowerChar c) = toUpperChar c"
proof -
  have "\<forall>c. toUpperChar (toLowerChar c) = toUpperChar c" by code_simp
  then show ?thesis by blast
qed

lemma lower_upper: "toLowerCase (toUpperCase s) = toLowerCase s"
  by (simp add: toLowerCase_def toUpperCase_def lower_upper_char)

lemma upper_lower: "toUpperCase (toLowerCase s) = toUpperCase s"
  by (simp add: toLowerCase_def toUpperCase_def upper_lower_char)

lemma upper_eq_iff_lower_eq: "toUpperCase a = toUpperCase b \<longleftrightarrow> toLowerCase a = toLowerCase b"
  by (metis lower_upper upper_lower)

lemma upper_upper: "toUpperCase (toUpperCase s) = toUpperCase s"
  by (metis upper_lower lower_upper)

lemma exists_iff_same_code:
  "list_ex (\<lambda>x. toUpperCase (code x) = normCode c) arr
     \<longleftrightarrow> (\<exists>x\<in>set arr. sameCodeIgnoringCase (code x) (trim c))"
  by (simp add: list_ex_iff normCode_def sameCodeIgnoringCase_def upper_eq_iff_lower_eq upper_upper)

lemma normCode_empty: "normCode [] = []"
  by (simp add: normCode_def trim_def toUpperCase_def)

lemma addCoupon_error_iff:
  "(\<exists>e. addCoupon c ty v m now arr = Inl e) \<longleftrightarrow>
     (\<not> codeFormatOk (normCode c) \<or>
      (\<exists>x\<in>set arr. sameCodeIgnoringCase (code x) (trim c)) \<or>
      (ty \<noteq> ''fixed'' \<and> ty \<noteq> ''percent'') \<or> v \<le> 0 \<or> (ty = ''percent'' \<and> 100 < v) \<or> m < 0)"
proof (cases "c = []")
  case True
  then show ?thesis by (simp add: addCoupon_def normCode_empty codeFormatOk_def)
next
  case False
  then show ?thesis
    unfolding exists_iff_same_code [symmetric]
    by (auto simp: addCoupon_def Let_def)
qed

lemma addCoupon_success:
  "addCoupon c ty v m now arr = Inr (cp, arr') \<Longrightarrow>
     cp = \<lparr>code = normCode c, kind = ty, val = v, uses = 0, maxUses = m, active = True,
           createdAt = now\<rparr> \<and> arr' = arr @ [cp]"
  by (auto simp: addCoupon_def Let_def split: if_splits)

lemmas string_evals = normCode_def trim_def toUpperCase_def toLowerCase_def toUpperChar_def
  toLowerChar_def lowerLetters_def upperLetters_def isWhiteSpace_def codeFormatOk_def codeChar_def

lemma norm_examples:
  "normCode ''ab'' = ''AB''" "normCode ''a'' = ''A''" "normCode ''50%OFF'' = ''50%OFF''"
  "normCode ''save10'' = ''SAVE10''" "normCode ''SAVE10'' = ''SAVE10''"
  "normCode '' save10 '' = ''SAVE10''"
  by (simp_all add: string_evals)

lemma format_examples:
  "codeFormatOk ''AB''" "\<not> codeFormatOk ''A''" "\<not> codeFormatOk ''50%OFF''" "codeFormatOk ''SAVE10''"
  by (simp_all add: string_evals)

text \<open>
  C7. \<open>addCoupon\<close> throws exactly when the normalised code fails the format rule, a
  coupon with the same code ignoring case exists, the kind is neither fixed nor percent,
  the value is not positive, a percent value exceeds 100, or \<open>maxUses\<close> is negative; on
  success the coupon stored has the trimmed, upper-cased code, \<open>uses = 0\<close> and
  \<open>active\<close>. \<open>"ab"\<close> is accepted, \<open>"a"\<close> and \<open>"50%OFF"\<close> are rejected, and
  \<open>"SAVE10"\<close> is rejected once \<open>"save10"\<close> has been added.
\<close>

theorem addCoupon_validation:
  "((\<exists>e. addCoupon c ty v m now arr = Inl e) \<longleftrightarrow>
      (\<not> codeFormatOk (normCode c) \<or>
       (\<exists>x\<in>set arr. sameCodeIgnoringCase (code x) (trim c)) \<or>
       (ty \<noteq> ''fixed'' \<and> ty \<noteq> ''percent'') \<or> v \<le> 0 \<or> (ty = ''percent'' \<and> 100 < v) \<or> m < 0)) \<and>
   (addCoupon c ty v m now arr = Inr (cp, arr') \<longrightarrow>
      cp = \<lparr>code = normCode c, kind = ty, val = v, uses = 0, maxUses = m,
            active = True, createdAt = now\<rparr> \<and> arr' = arr @ [cp]) \<and>
   normCode c = toUpperCase (trim c) \<and>
   addCoupon ''ab'' ''fixed'' 10 0 now []
     = Inr (\<lparr>code = ''AB'', kind = ''fixed'', val = 10, uses = 0, maxUses = 0, active = True,
             createdAt = now\<rparr>,
            [\<lparr>code = ''AB'', kind = ''fixed'', val = 10, uses = 0, maxUses = 0, active = True,
              createdAt = now\<rparr>]) \<and>
   addCoupon ''a'' ty v m now arr = Inl BadCode \<and>
   addCoupon ''50%OFF'' ty v m now arr = Inl BadCode \<and>
   (addCoupon ''save10'' ty v m now arr = Inr (cp, arr') \<longrightarrow>
      (\<exists>e. addCoupon ''SAVE10'' ty2 v2 m2 now2 arr' = Inl e))"
proof -
  have ab: "addCoupon ''ab'' ''fixed'' 10 0 now []
     = Inr (\<lparr>code = ''AB'', kind = ''fixed'', val = 10, uses = 0, maxUses = 0, active = True,
             createdAt = now\<rparr>,
            [\<lparr>code = ''AB'', kind = ''fixed'', val = 10, uses = 0, maxUses = 0, active = True,
              createdAt = now\<rparr>])"
    by (simp add: addCoupon_def norm_examples format_examples Let_def)
  have a: "addCoupon ''a'' ty v m now arr = Inl BadCode"
    and p: "addCoupon ''50%OFF'' ty v m now arr = Inl BadCode"
    by (simp_all add: addCoupon_def norm_examples format_examples)
  have dup: "\<exists>e. addCoupon ''SAVE10'' ty2 v2 m2 now2 arr' = Inl e"
    if "addCoupon ''save10'' ty v m now arr = Inr (cp, arr')"
  proof -
    from addCoupon_success [OF that] have "code cp = ''SAVE10''" "cp \<in> set arr'"
      by (simp_all add: norm_examples)
    then have "sameCodeIgnoringCase (code cp) (trim ''SAVE10'')" "cp \<in> set arr'"
      by (simp_all add: sameCodeIgnoringCase_def trim_def isWhiteSpace_def)
    then have "\<exists>x\<in>set arr'. sameCodeIgnoringCase (code x) (trim ''SAVE10'')"
      by blast
    then show ?thesis by (simp add: addCoupon_error_iff)
  qed
  show ?thesis
    using addCoupon_error_iff [of c ty v m now arr] addCoupon_success [of c ty v m now arr cp arr']
      ab a p dup normCode_def [of c]
    by blast
qed

lemma demo_lookup: "couponFor ''save10 '' [demoCoupon] = Some demoCoupon"
  by (simp add: couponFor_def demoCoupon_def string_evals)

lemma demo_increment:
  "incrementCouponUse ''save10 '' [demoCoupon] = (True, [demoCoupon\<lparr>uses := 1\<rparr>])"
  by (simp add: incrementCouponUse_def demoCoupon_def string_evals)

lemma demo_increment_again:
  "incrementCouponUse ''save10 '' [demoCoupon\<lparr>uses := 1\<rparr>] = (False, [demoCoupon\<lparr>uses := 1\<rparr>])"
  by (simp add: incrementCouponUse_def demoCoupon_def string_evals)

lemma demo_add:
  "addCoupon ''vip-5'' ''percent'' 5 0 ''2024-02-02T00:00:00.000Z'' [demoCoupon]
     = Inr (demoAdded, [demoCoupon, demoAdded])"
  by (simp add: addCoupon_def demoCoupon_def demoAdded_def string_evals Let_def)

lemma demo_run:
  "runLedger [demoCoupon]
     [IncrementCouponUse ''save10 '', FindCoupon ''SAVE10'', IncrementCouponUse ''save10 '',
      ListCoupons, DeleteCoupon ''nothing'']
     = [demoCoupon\<lparr>uses := 1\<rparr>]"
proof -
  have d: "deleteCoupon ''nothing'' [demoCoupon\<lparr>uses := 1\<rparr>] = (False, [demoCoupon\<lparr>uses := 1\<rparr>])"
    by (simp add: deleteCoupon_def demoCoupon_def string_evals)
  show ?thesis
    by (simp add: runLedger_def demo_increment demo_increment_again d)
qed

theorem ledger_cap_invariant_witness:
  "ledgerWithinCap [demoCoupon] \<and>
   runLedger [demoCoupon]
     [IncrementCouponUse ''save10 '', FindCoupon ''SAVE10'', IncrementCouponUse ''save10 '',
      ListCoupons, DeleteCoupon ''nothing''] = [demoCoupon\<lparr>uses := 1\<rparr>] \<and>
   ledgerWithinCap [demoCoupon\<lparr>uses := 1\<rparr>] \<and>
   addCoupon ''vip-5'' ''percent'' 5 0 ''2024-02-02T00:00:00.000Z'' [demoCoupon]
     = Inr (demoAdded, [demoCoupon, demoAdded]) \<and> uses demoAdded = 0 \<and>
   (0::nat) < length [demoCoupon] \<and> maxUses ([demoCoupon] ! 0) > 0 \<and>
   uses (snd (incrementCouponUse ''save10 '' [demoCoupon]) ! 0) \<noteq> uses ([demoCoupon] ! 0) \<and>
   uses (snd (incrementCouponUse ''save10 '' [demoCoupon]) ! 0)
     \<le> maxUses (snd (incrementCouponUse ''save10 '' [demoCoupon]) ! 0)"
proof -
  have h: "ledgerWithinCap [demoCoupon]"
    by (simp add: ledgerWithinCap_def withinCap_def demoCoupon_def)
  have c: "(0::nat) < length [demoCoupon]" "maxUses ([demoCoupon] ! 0) > 0"
    "uses (snd (incrementCouponUse ''save10 '' [demoCoupon]) ! 0) \<noteq> uses ([demoCoupon] ! 0)"
    by (simp_all add: demo_increment) (simp_all add: demoCoupon_def)
  have r: "ledgerWithinCap (runLedger [demoCoupon]
     [IncrementCouponUse ''save10 '', FindCoupon ''SAVE10'', IncrementCouponUse ''save10 '',
      ListCoupons, DeleteCoupon ''nothing''])"
    using ledger_cap_invariant [OF h] by blast
  have u: "uses demoAdded = 0"
    using ledger_cap_invariant [OF h, where c = "''vip-5''" and cp = demoAdded] demo_add
    by blast
  have w: "uses (snd (incrementCouponUse ''save10 '' [demoCoupon]) ! 0)
     \<le> maxUses (snd (incrementCouponUse ''save10 '' [demoCoupon]) ! 0)"
    using ledger_cap_invariant [OF h, where k = "''save10 ''" and i = 0] c by blast
  show ?thesis
    using h c demo_add r u w unfolding demo_run by blast
qed

theorem incrementCouponUse_revalidates_witness:
  "couponFor ''save10 '' [demoCoupon] = Some demoCoupon \<and> active demoCoupon \<and>
   \<not> exhausted demoCoupon \<and>
   incrementCouponUse ''save10 '' [demoCoupon] = (True, [demoCoupon\<lparr>uses := uses demoCoupon + 1\<rparr>]) \<and>
   couponFor ''save10 '' [demoCoupon\<lparr>uses := 1\<rparr>] = Some (demoCoupon\<lparr>uses := 1\<rparr>) \<and>
   exhausted (demoCoupon\<lparr>uses := 1\<rparr>) \<and>
   incrementCouponUse ''save10 '' [demoCoupon\<lparr>uses := 1\<rparr>] = (False, [demoCoupon\<lparr>uses := 1\<rparr>]) \<and>
   couponFor ''other'' [demoCoupon] = None \<and>
   incrementCouponUse ''other'' [demoCoupon] = (False, [demoCoupon])"
proof -
  have a: "couponFor ''save10 '' [demoCoupon] = Some demoCoupon" "active demoCoupon"
    "\<not> exhausted demoCoupon"
    by (simp_all add: demo_lookup) (simp_all add: demoCoupon_def exhausted_def)
  have b: "couponFor ''save10 '' [demoCoupon\<lparr>uses := 1\<rparr>] = Some (demoCoupon\<lparr>uses := 1\<rparr>)"
    "exhausted (demoCoupon\<lparr>uses := 1\<rparr>)"
    by (simp_all add: couponFor_def demoCoupon_def exhausted_def string_evals)
  have c: "couponFor ''other'' [demoCoupon] = None"
    by (simp add: couponFor_def demoCoupon_def string_evals)
  show ?thesis
    using incrementCouponUse_revalidates [of "''save10 ''" "[demoCoupon]" demoCoupon]
      incrementCouponUse_revalidates [of "''save10 ''" "[demoCoupon\<lparr>uses := 1\<rparr>]" "demoCoupon\<lparr>uses := 1\<rparr>"]
      incrementCouponUse_revalidates [of "''other''" "[demoCoupon]" demoCoupon]
      a b c
    by simp
qed

theorem addCoupon_validation_witness:
  "addCoupon ''vip-5'' ''percent'' 5 0 ''2024-02-02T00:00:00.000Z'' [demoCoupon]
     = Inr (demoAdded, [demoCoupon, demoAdded]) \<and>
   code demoAdded = ''VIP-5'' \<and> uses demoAdded = 0 \<and> active demoAdded \<and>
   codeFormatOk (normCode ''vip-5'') \<and>
   (\<exists>x\<in>set [demoCoupon]. sameCodeIgnoringCase (code x) (trim '' save10 '')) \<and>
   (\<exists>e. addCoupon '' save10 '' ''fixed'' 3 0 ''2024-03-03T00:00:00.000Z'' [demoCoupon] = Inl e) \<and>
   addCoupon ''save10'' ''fixed'' 3 0 ''2024-03-03T00:00:00.000Z'' []
     = Inr (demoCoupon\<lparr>val := 3, maxUses := 0, createdAt := ''2024-03-03T00:00:00.000Z''\<rparr>,
            [demoCoupon\<lparr>val := 3, maxUses := 0, createdAt := ''2024-03-03T00:00:00.000Z''\<rparr>]) \<and>
   (\<exists>e. addCoupon ''SAVE10'' ''percent'' 50 1 ''2024-04-04T00:00:00.000Z''
          [demoCoupon\<lparr>val := 3, maxUses := 0, createdAt := ''2024-03-03T00:00:00.000Z''\<rparr>] = Inl e)"
proof -
  have f: "codeFormatOk (normCode ''vip-5'')"
    by (simp add: string_evals)
  have s: "\<exists>x\<in>set [demoCoupon]. sameCodeIgnoringCase (code x) (trim '' save10 '')"
    by (simp add: sameCodeIgnoringCase_def demoCoupon_def string_evals)
  have n: "addCoupon ''save10'' ''fixed'' 3 0 ''2024-03-03T00:00:00.000Z'' []
     = Inr (demoCoupon\<lparr>val := 3, maxUses := 0, createdAt := ''2024-03-03T00:00:00.000Z''\<rparr>,
            [demoCoupon\<lparr>val := 3, maxUses := 0, createdAt := ''2024-03-03T00:00:00.000Z''\<rparr>])"
    by (simp add: addCoupon_def demoCoupon_def string_evals Let_def)
  have e1: "\<exists>e. addCoupon '' save10 '' ''fixed'' 3 0 ''2024-03-03T00:00:00.000Z'' [demoCoupon] = Inl e"
    using addCoupon_validation [where c = "'' save10 ''" and ty = "''fixed''" and v = 3 and m = 0
        and now = "''2024-03-03T00:00:00.000Z''" and arr = "[demoCoupon]"] s
    by blast
  have e2: "\<exists>e. addCoupon ''SAVE10'' ''percent'' 50 1 ''2024-04-04T00:00:00.000Z''
          [demoCoupon\<lparr>val := 3, maxUses := 0, createdAt := ''2024-03-03T00:00:00.000Z''\<rparr>] = Inl e"
    using addCoupon_validation [where c = "''save10''" and ty = "''fixed''" and v = 3 and m = 0
        and now = "''2024-03-03T00:00:00.000Z''" and arr = "[]"
        and cp = "demoCoupon\<lparr>val := 3, maxUses := 0, createdAt := ''2024-03-03T00:00:00.000Z''\<rparr>"
        and arr' = "[demoCoupon\<lparr>val := 3, maxUses := 0, createdAt := ''2024-03-03T00:00:00.000Z''\<rparr>]"
        and ?ty2.0 = "''percent''" and ?v2.0 = 50 and ?m2.0 = 1
        and ?now2.0 = "''2024-04-04T00:00:00.000Z''"] n
    by blast
  show ?thesis
    using demo_add f s n e1 e2 by (simp add: demoAdded_def)
qed


section \<open>Webhook acknowledgment\<close>

lemma specStore_simps:
  "markPaid_of specStore oid info w = (Inr (fst (markPaid oid info w)), snd (markPaid oid info w))"
  "upsertOrder_of specStore ord w = (Inr (), upsertOrder ord w)"
  by (simp_all add: specStore_def split: prod.splits)

lemma trusted_without_key:
  "CRYPTOMUS_API_KEY e = None \<or> CRYPTOMUS_API_KEY e = Some [] \<Longrightarrow> isCryptomusWebhookTrusted sg p e"
  by (auto simp: isCryptomusWebhookTrusted_def)

lemma cryptomus_status_200:
  "isCryptomusWebhookTrusted sg p e \<Longrightarrow> fst (fst (cryptomusWebhook api sg e p w)) = 200"
  by (auto simp: cryptomusWebhook_def cryptomusTry_def cryptomusProcess_def
      split: prod.splits sum.splits option.splits if_splits)

lemma stripe_status_200: "fst (fst (stripeWebhook api decoded w)) = 200"
  by (auto simp: stripeWebhook_def stripeTry_def
      split: prod.splits sum.splits option.splits if_splits event_data.splits)

lemma cryptomus_caught:
  "cryptomusTry api sg e p w = (Inl ex, w1) \<Longrightarrow>
     cryptomusWebhook api sg e p w = ((200, ''ok''), w1\<lparr>logged := logged w1 @ [ex]\<rparr>)"
  by (simp add: cryptomusWebhook_def)

lemma stripe_caught:
  "stripeTry api decoded w = (Inl ex, w1) \<Longrightarrow>
     stripeWebhook api decoded w = ((200, ''ok''), w1\<lparr>logged := logged w1 @ [ex]\<rparr>)"
  by (simp add: stripeWebhook_def)

lemma cryptomus_no_order:
  "isCryptomusWebhookTrusted sg p e \<Longrightarrow> \<not> truthy (cp_order_id p) \<Longrightarrow>
     cryptomusWebhook api sg e p w = ((200, ''no order''), w)"
  by (auto simp: cryptomusWebhook_def cryptomusTry_def cryptomusProcess_def truthy_def
      split: option.splits)

lemma cryptomus_not_paid:
  "isCryptomusWebhookTrusted sg p e \<Longrightarrow> truthy (cp_order_id p) \<Longrightarrow>
   statusOf p \<notin> set paidStatuses \<Longrightarrow>
     cryptomusWebhook api sg e p w = ((200, ''not paid''), w)"
  by (auto simp: cryptomusWebhook_def cryptomusTry_def cryptomusProcess_def truthy_def
      split: option.splits)

lemma cryptomus_unknown_order:
  "isCryptomusWebhookTrusted sg p e \<Longrightarrow> cp_order_id p = Some oid \<Longrightarrow> oid \<noteq> [] \<Longrightarrow>
   statusOf p \<in> set paidStatuses \<Longrightarrow> markPaid_of api oid (cryptomusInfo p) w = (Inr None, w1) \<Longrightarrow>
     cryptomusWebhook api sg e p w = ((200, ''ok''), w1)"
  by (simp add: cryptomusWebhook_def cryptomusTry_def cryptomusProcess_def confirmOrder_def
      afterMarkPaid_def)

lemma stripe_other_event:
  "ev_type ev \<noteq> ''checkout.session.completed'' \<Longrightarrow>
     stripeWebhook api (Inr ev) w = ((200, ''ok''), w)"
  by (simp add: stripeWebhook_def stripeTry_def)

lemma stripe_no_order:
  "ev_data ev = Data (Some s) \<Longrightarrow> \<not> truthy (ss_orderId s) \<Longrightarrow>
     stripeWebhook api (Inr ev) w = ((200, ''ok''), w)"
  by (simp add: stripeWebhook_def stripeTry_def)

lemma stripe_unknown_order:
  "ev_type ev = ''checkout.session.completed'' \<Longrightarrow> ev_data ev = Data (Some s) \<Longrightarrow>
   ss_orderId s = Some oid \<Longrightarrow> oid \<noteq> [] \<Longrightarrow>
   markPaid_of api oid (stripeInfo s) w = (Inr None, w1) \<Longrightarrow>
     stripeWebhook api (Inr ev) w = ((200, ''ok''), w1)"
  by (simp add: stripeWebhook_def stripeTry_def confirmOrder_def afterMarkPaid_def truthy_def)


section \<open>Payment confirmation on the store\<close>

lemma markPaid_absent: "orders w oid = None \<Longrightarrow> markPaid oid info w = (None, w)"
  by (simp add: markPaid_def)

lemma markPaid_paid:
  "orders w oid = Some ord \<Longrightarrow> status ord = Paid \<Longrightarrow> markPaid oid info w = (Some ord, w)"
  by (simp add: markPaid_def)

lemma markPaid_pending:
  "orders w oid = Some ord \<Longrightarrow> status ord = Pending \<Longrightarrow>
     markPaid oid info w = (Some (paidOrder info ord), upsertOrder (paidOrder info ord) w)"
  by (simp add: markPaid_def paidOrder_def Let_def)

lemma recordCouponUse_skip:
  "\<not> hasCouponCode ord \<or> couponUsedMarked (pricing ord) \<Longrightarrow>
     recordCouponUse api ord w = (Inr ord, w)"
  by (auto simp: recordCouponUse_def hasCouponCode_def split: option.splits)

lemma recordCouponUse_count:
  "hasCouponCode ord \<Longrightarrow> \<not> couponUsedMarked (pricing ord) \<Longrightarrow>
     recordCouponUse specStore ord w =
       (Inr (markedOrder ord),
        upsertOrder (markedOrder ord)
          (w\<lparr>coupons := snd (incrementCouponUse (couponCodeOf ord) (coupons w))\<rparr>))"
  by (auto simp: recordCouponUse_def hasCouponCode_def couponCodeOf_def markedOrder_def
      specStore_simps Let_def split: option.splits)

lemma confirm_absent:
  "orders w oid = None \<Longrightarrow> confirmOrder specStore oid info w = (Inr (), w)"
  by (simp add: confirmOrder_def specStore_simps markPaid_absent afterMarkPaid_def)

lemma confirm_settled:
  assumes "orders w oid = Some ord" "settled oid w"
  shows "confirmOrder specStore oid info w = (Inr (), notifyPaid ord w)"
proof -
  from assms have p: "status ord = Paid" and c: "\<not> hasCouponCode ord \<or> couponUsedMarked (pricing ord)"
    by (auto simp: settled_def)
  show ?thesis
    by (simp add: confirmOrder_def specStore_simps markPaid_paid [OF assms(1) p] afterMarkPaid_def
        recordCouponUse_skip [OF c])
qed

lemma confirm_pending_plain:
  assumes "orders w oid = Some ord" "status ord = Pending"
    "\<not> hasCouponCode ord \<or> couponUsedMarked (pricing ord)"
  shows "confirmOrder specStore oid info w =
           (Inr (), notifyPaid (paidOrder info ord) (upsertOrder (paidOrder info ord) w))"
proof -
  have c: "\<not> hasCouponCode (paidOrder info ord) \<or> couponUsedMarked (pricing (paidOrder info ord))"
    using assms(3) by (simp add: paidOrder_def hasCouponCode_def)
  show ?thesis
    by (simp add: confirmOrder_def specStore_simps markPaid_pending [OF assms(1,2)]
        afterMarkPaid_def recordCouponUse_skip [OF c])
qed

lemma confirm_pending_coupon:
  assumes "orders w oid = Some ord" "status ord = Pending"
    "hasCouponCode ord" "\<not> couponUsedMarked (pricing ord)"
  shows "confirmOrder specStore oid info w =
           (Inr (),
            notifyPaid (markedOrder (paidOrder info ord))
              (upsertOrder (markedOrder (paidOrder info ord))
                ((upsertOrder (paidOrder info ord) w)
                   \<lparr>coupons := snd (incrementCouponUse (couponCodeOf ord) (coupons w))\<rparr>)))"
proof -
  have c: "hasCouponCode (paidOrder info ord)" "\<not> couponUsedMarked (pricing (paidOrder info ord))"
    "couponCodeOf (paidOrder info ord) = couponCodeOf ord"
    using assms(3,4) by (simp_all add: paidOrder_def hasCouponCode_def couponCodeOf_def)
  show ?thesis
    by (simp add: confirmOrder_def specStore_simps markPaid_pending [OF assms(1,2)]
        afterMarkPaid_def recordCouponUse_count [OF c(1,2)] c(3) upsertOrder_def)
qed

lemma confirm_paid_unmarked:
  assumes "orders w oid = Some ord" "status ord = Paid"
    "hasCouponCode ord" "\<not> couponUsedMarked (pricing ord)"
  shows "confirmOrder specStore oid info w =
           (Inr (),
            notifyPaid (markedOrder ord)
              (upsertOrder (markedOrder ord)
                (w\<lparr>coupons := snd (incrementCouponUse (couponCodeOf ord) (coupons w))\<rparr>)))"
  by (simp add: confirmOrder_def specStore_simps markPaid_paid [OF assms(1,2)]
      afterMarkPaid_def recordCouponUse_count [OF assms(3,4)])

lemma order_cases:
  obtains (absent) "orders w oid = None"
  | (settled) ord where "orders w oid = Some ord" "settled oid w"
  | (pending_plain) ord where "orders w oid = Some ord" "status ord = Pending"
      "\<not> hasCouponCode ord \<or> couponUsedMarked (pricing ord)"
  | (pending_coupon) ord where "orders w oid = Some ord" "status ord = Pending"
      "hasCouponCode ord" "\<not> couponUsedMarked (pricing ord)"
  | (paid_unmarked) ord where "orders w oid = Some ord" "status ord = Paid"
      "hasCouponCode ord" "\<not> couponUsedMarked (pricing ord)"
proof (cases "orders w oid")
  case None
  then show ?thesis by (rule absent)
next
  case (Some ord)
  show ?thesis
  proof (cases "status ord")
    case Pending
    then show ?thesis using Some pending_plain pending_coupon by blast
  next
    case Paid
    show ?thesis
    proof (cases "hasCouponCode ord \<and> \<not> couponUsedMarked (pricing ord)")
      case True
      then show ?thesis using Some Paid paid_unmarked by blast
    next
      case False
      then have "settled oid w" using Some Paid by (auto simp: settled_def)
      then show ?thesis using Some settled by blast
    qed
  qed
qed

lemma confirm_never_throws: "\<exists>w'. confirmOrder specStore oid info w = (Inr (), w')"
  by (cases w oid rule: order_cases)
    (simp_all add: confirm_absent confirm_settled confirm_pending_plain confirm_pending_coupon
      confirm_paid_unmarked)


section \<open>Webhook deliveries\<close>

lemma first_confirmation:
  assumes "orders w oid = Some ord" "status ord = Pending" "order_id ord = oid"
  shows "\<exists>ord'. orders (snd (confirmOrder specStore oid info w)) oid = Some ord' \<and>
           status ord' = Paid \<and>
           payment ord' = payment (paidOrder info ord) \<and>
           couponUsedMarked (pricing ord') = (hasCouponCode ord \<or> couponUsedMarked (pricing ord)) \<and>
           notified (snd (confirmOrder specStore oid info w)) = notified w @ [ord']"
    and "coupons (snd (confirmOrder specStore oid info w)) =
           (if hasCouponCode ord \<and> \<not> couponUsedMarked (pricing ord)
            then snd (incrementCouponUse (couponCodeOf ord) (coupons w)) else coupons w)"
proof -
  show "\<exists>ord'. orders (snd (confirmOrder specStore oid info w)) oid = Some ord' \<and>
           status ord' = Paid \<and>
           payment ord' = payment (paidOrder info ord) \<and>
           couponUsedMarked (pricing ord') = (hasCouponCode ord \<or> couponUsedMarked (pricing ord)) \<and>
           notified (snd (confirmOrder specStore oid info w)) = notified w @ [ord']"
  proof (cases "hasCouponCode ord \<and> \<not> couponUsedMarked (pricing ord)")
    case True
    then show ?thesis using assms(3)
      by (simp add: confirm_pending_coupon [OF assms(1,2)] notifyPaid_def upsertOrder_def
          paidOrder_def markedOrder_def)
  next
    case False
    then have c: "\<not> hasCouponCode ord \<or> couponUsedMarked (pricing ord)" by blast
    show ?thesis using assms(3) c
      by (auto simp: confirm_pending_plain [OF assms(1,2) c] notifyPaid_def upsertOrder_def
          paidOrder_def)
  qed
  show "coupons (snd (confirmOrder specStore oid info w)) =
           (if hasCouponCode ord \<and> \<not> couponUsedMarked (pricing ord)
            then snd (incrementCouponUse (couponCodeOf ord) (coupons w)) else coupons w)"
  proof (cases "hasCouponCode ord \<and> \<not> couponUsedMarked (pricing ord)")
    case True
    then show ?thesis
      by (simp add: confirm_pending_coupon [OF assms(1,2)] notifyPaid_def upsertOrder_def)
  next
    case False
    then have c: "\<not> hasCouponCode ord \<or> couponUsedMarked (pricing ord)" by blast
    show ?thesis using False
      by (auto simp: confirm_pending_plain [OF assms(1,2) c] notifyPaid_def upsertOrder_def)
  qed
qed

text \<open>
  C8. Whatever the functions of the store do, throwing included: a Cryptomus request that
  passed the authenticity check is answered with status 200, and so is every Stripe
  request. A missing order id, a status that is not a paid one and an order that
  \<open>markPaid\<close> does not know (on the store of the spec, an id with no order) end in a 200
  answer with the state as it was or as \<open>markPaid\<close> left it; an exception thrown in the
  \<open>try\<close> is logged and answered with 200 \<open>ok\<close>.
\<close>

theorem webhooks_always_acknowledge:
  "(isCryptomusWebhookTrusted sg p e \<longrightarrow> fst (fst (cryptomusWebhook api sg e p w)) = 200) \<and>
   fst (fst (stripeWebhook api decoded w)) = 200 \<and>
   (isCryptomusWebhookTrusted sg p e \<and> \<not> truthy (cp_order_id p) \<longrightarrow>
      cryptomusWebhook api sg e p w = ((200, ''no order''), w)) \<and>
   (isCryptomusWebhookTrusted sg p e \<and> truthy (cp_order_id p) \<and> statusOf p \<notin> set paidStatuses \<longrightarrow>
      cryptomusWebhook api sg e p w = ((200, ''not paid''), w)) \<and>
   (isCryptomusWebhookTrusted sg p e \<and> cp_order_id p = Some oid \<and> oid \<noteq> [] \<and>
    statusOf p \<in> set paidStatuses \<and> markPaid_of api oid (cryptomusInfo p) w = (Inr None, w1) \<longrightarrow>
      cryptomusWebhook api sg e p w = ((200, ''ok''), w1)) \<and>
   (cryptomusTry api sg e p w = (Inl ex, w1) \<longrightarrow>
      cryptomusWebhook api sg e p w = ((200, ''ok''), w1\<lparr>logged := logged w1 @ [ex]\<rparr>)) \<and>
   (ev_type ev \<noteq> ''checkout.session.completed'' \<longrightarrow>
      stripeWebhook api (Inr ev) w = ((200, ''ok''), w)) \<and>
   (ev_data ev = Data (Some s) \<and> \<not> truthy (ss_orderId s) \<longrightarrow>
      stripeWebhook api (Inr ev) w = ((200, ''ok''), w)) \<and>
   (ev_type ev = ''checkout.session.completed'' \<and> ev_data ev = Data (Some s) \<and>
    ss_orderId s = Some oid \<and> oid \<noteq> [] \<and> markPaid_of api oid (stripeInfo s) w = (Inr None, w1) \<longrightarrow>
      stripeWebhook api (Inr ev) w = ((200, ''ok''), w1)) \<and>
   (stripeTry api decoded w = (Inl ex, w1) \<longrightarrow>
      stripeWebhook api decoded w = ((200, ''ok''), w1\<lparr>logged := logged w1 @ [ex]\<rparr>)) \<and>
   (orders w oid = None \<longrightarrow> markPaid_of specStore oid info w = (Inr None, w))"
proof -
  have u: "markPaid_of specStore oid info w = (Inr None, w)" if "orders w oid = None"
    using that by (simp add: specStore_simps markPaid_absent)
  show ?thesis
    using cryptomus_status_200 [of sg p e api w] stripe_status_200 [of api decoded w]
      cryptomus_no_order [of sg p e api w] cryptomus_not_paid [of sg p e api w]
      cryptomus_unknown_order [of sg p e oid api w w1] cryptomus_caught [of api sg e p w ex w1]
      stripe_other_event [of ev api w] stripe_no_order [of ev s api w]
      stripe_unknown_order [of ev s oid api w w1] stripe_caught [of api decoded w ex w1] u
    by blast
qed

text \<open>
  C9. With \<open>CRYPTOMUS_API_KEY\<close> unset or empty, \<open>isCryptomusWebhookTrusted\<close> is true
  of every request, also of one without a signature, and the handler goes on to process
  the payload.
\<close>

theorem cryptomus_open_without_api_key:
  assumes "CRYPTOMUS_API_KEY e = None \<or> CRYPTOMUS_API_KEY e = Some []"
  shows "isCryptomusWebhookTrusted sg p e \<and>
         isCryptomusWebhookTrusted sg (p\<lparr>cp_sign := None\<rparr>) e \<and>
         cryptomusTry api sg e p w = cryptomusProcess api p w \<and>
         fst (fst (cryptomusWebhook api sg e p w)) = 200"
  using trusted_without_key [OF assms, of sg p] trusted_without_key [OF assms, of sg "p\<lparr>cp_sign := None\<rparr>"]
    cryptomus_status_200 [of sg p e api w]
  by (simp add: cryptomusTry_def)

text \<open>
  C10. For a trusted Cryptomus request with an order id: the lower-cased statuses
  \<open>paid\<close>, \<open>paid_over\<close> and \<open>paid_partial\<close> all confirm the payment, so that a
  pending order becomes paid with the payment data of the request, its coupon's use is
  counted and marked (if it has a coupon code not marked yet) and \<open>notifyPaid\<close> is
  called once; any other status is answered \<open>not paid\<close> with no change of state,
  whatever the store.
\<close>

theorem cryptomus_paid_statuses:
  assumes "isCryptomusWebhookTrusted sg p e" "cp_order_id p = Some oid" "oid \<noteq> []"
  shows "set paidStatuses = {''paid'', ''paid_over'', ''paid_partial''} \<and>
         (statusOf p \<in> {''paid'', ''paid_over'', ''paid_partial''} \<and>
          orders w oid = Some ord \<and> status ord = Pending \<and> order_id ord = oid \<longrightarrow>
            fst (cryptomusWebhook specStore sg e p w) = (200, ''ok'') \<and>
            (\<exists>ord'. orders (snd (cryptomusWebhook specStore sg e p w)) oid = Some ord' \<and>
                    status ord' = Paid \<and>
                    payment ord' = payment (paidOrder (cryptomusInfo p) ord) \<and>
                    couponUsedMarked (pricing ord')
                      = (hasCouponCode ord \<or> couponUsedMarked (pricing ord)) \<and>
                    notified (snd (cryptomusWebhook specStore sg e p w)) = notified w @ [ord']) \<and>
            coupons (snd (cryptomusWebhook specStore sg e p w)) =
              (if hasCouponCode ord \<and> \<not> couponUsedMarked (pricing ord)
               then snd (incrementCouponUse (couponCodeOf ord) (coupons w)) else coupons w)) \<and>
         (statusOf p \<notin> {''paid'', ''paid_over'', ''paid_partial''} \<longrightarrow>
            cryptomusWebhook api sg e p w = ((200, ''not paid''), w))"
proof -
  have ps: "set paidStatuses = {''paid'', ''paid_over'', ''paid_partial''}"
    by (simp add: paidStatuses_def)
  have np: "cryptomusWebhook api sg e p w = ((200, ''not paid''), w)"
    if "statusOf p \<notin> {''paid'', ''paid_over'', ''paid_partial''}"
    using cryptomus_not_paid [of sg p e api w] assms that unfolding ps
    by (simp add: truthy_def)
  have pd: "fst (cryptomusWebhook specStore sg e p w) = (200, ''ok'') \<and>
            (\<exists>ord'. orders (snd (cryptomusWebhook specStore sg e p w)) oid = Some ord' \<and>
                    status ord' = Paid \<and>
                    payment ord' = payment (paidOrder (cryptomusInfo p) ord) \<and>
                    couponUsedMarked (pricing ord')
                      = (hasCouponCode ord \<or> couponUsedMarked (pricing ord)) \<and>
                    notified (snd (cryptomusWebhook specStore sg e p w)) = notified w @ [ord']) \<and>
            coupons (snd (cryptomusWebhook specStore sg e p w)) =
              (if hasCouponCode ord \<and> \<not> couponUsedMarked (pricing ord)
               then snd (incrementCouponUse (couponCodeOf ord) (coupons w)) else coupons w)"
    if "statusOf p \<in> {''paid'', ''paid_over'', ''paid_partial''}"
      "orders w oid = Some ord" "status ord = Pending" "order_id ord = oid"
  proof -
    obtain w' where w': "confirmOrder specStore oid (cryptomusInfo p) w = (Inr (), w')"
      using confirm_never_throws by blast
    have h: "cryptomusWebhook specStore sg e p w
               = ((200, ''ok''), snd (confirmOrder specStore oid (cryptomusInfo p) w))"
      using assms that(1) w' unfolding ps [symmetric]
      by (simp add: cryptomusWebhook_def cryptomusTry_def cryptomusProcess_def)
    show ?thesis
      unfolding h using first_confirmation [OF that(2,3,4), of "cryptomusInfo p"] by simp
  qed
  show ?thesis using ps np pd by blast
qed


section \<open>Sample runs\<close>

lemma demo_status: "statusOf demoPayload = ''paid_partial''"
  by (simp add: statusOf_def demoPayload_def string_evals)

lemma demo_payload_facts:
  "cp_order_id demoPayload = Some ''ord-1''" "cp_sign demoPayload = None"
  by (simp_all add: demoPayload_def)

lemma demo_order_facts:
  "orders demoWorld ''ord-1'' = Some demoOrder" "status demoOrder = Pending"
  "hasCouponCode demoOrder" "\<not> couponUsedMarked (pricing demoOrder)" "order_id demoOrder = ''ord-1''"
  "couponCodeOf demoOrder = ''SAVE10''" "notified demoWorld = []" "coupons demoWorld = [demoCoupon]"
  by (simp_all add: demoWorld_def demoOrder_def hasCouponCode_def couponCodeOf_def)

lemma demo_first:
  "snd (deliver specStore demoCryptomus demoWorld)
     = demoWorld\<lparr>orders := [''ord-1'' \<mapsto> demoPaidOrder], coupons := [demoCoupon\<lparr>uses := 1\<rparr>],
                 notified := [demoPaidOrder]\<rparr>"
proof -
  have t: "isCryptomusWebhookTrusted demoSigner demoPayload demoEnvNoKey"
    by (simp add: isCryptomusWebhookTrusted_def demoEnvNoKey_def)
  have o: "cp_order_id demoPayload = Some ''ord-1''" by (simp add: demoPayload_def)
  have i: "incrementCouponUse ''SAVE10'' [demoCoupon] = (True, [demoCoupon\<lparr>uses := 1\<rparr>])"
    by (simp add: incrementCouponUse_def demoCoupon_def string_evals)
  have k: "order_id demoPaidOrder = ''ord-1''" "order_id (paidOrder (cryptomusInfo demoPayload) demoOrder) = ''ord-1''"
    by (simp_all add: demoPaidOrder_def markedOrder_def paidOrder_def demoOrder_def)
  show ?thesis
    using t o k
    by (simp add: demoCryptomus_def cryptomusWebhook_def cryptomusTry_def cryptomusProcess_def
        demo_status paidStatuses_def confirm_pending_coupon [OF demo_order_facts(1-4)]
        demo_order_facts(6-8) i notifyPaid_def upsertOrder_def demoPaidOrder_def [symmetric])
      (simp add: demoWorld_def)
qed

theorem webhooks_always_acknowledge_witness:
  "isCryptomusWebhookTrusted demoSigner demoPayload demoEnvNoKey \<and>
   cryptomusTry throwingStore demoSigner demoEnvNoKey demoPayload demoWorld
     = (Inl (Thrown ''EACCES''), demoWorld) \<and>
   cryptomusWebhook throwingStore demoSigner demoEnvNoKey demoPayload demoWorld
     = ((200, ''ok''), demoWorld\<lparr>logged := [Thrown ''EACCES'']\<rparr>) \<and>
   \<not> truthy (cp_order_id (demoPayload\<lparr>cp_order_id := None\<rparr>)) \<and>
   cryptomusWebhook specStore demoSigner demoEnvNoKey (demoPayload\<lparr>cp_order_id := None\<rparr>) demoWorld
     = ((200, ''no order''), demoWorld) \<and>
   statusOf (demoPayload\<lparr>cp_status := Some ''confirm_check''\<rparr>) \<notin> set paidStatuses \<and>
   cryptomusWebhook specStore demoSigner demoEnvNoKey
       (demoPayload\<lparr>cp_status := Some ''confirm_check''\<rparr>) demoWorld
     = ((200, ''not paid''), demoWorld) \<and>
   orders demoWorld ''ord-9'' = None \<and>
   cryptomusWebhook specStore demoSigner demoEnvNoKey
       (demoPayload\<lparr>cp_order_id := Some ''ord-9''\<rparr>) demoWorld
     = ((200, ''ok''), demoWorld) \<and>
   stripeTry specStore (Inl (Thrown ''bad signature'')) demoWorld
     = (Inl (Thrown ''bad signature''), demoWorld) \<and>
   stripeWebhook specStore (Inl (Thrown ''bad signature'')) demoWorld
     = ((200, ''ok''), demoWorld\<lparr>logged := [Thrown ''bad signature'']\<rparr>) \<and>
   stripeWebhook throwingStore (Inr (demoEvent\<lparr>ev_type := ''payment_intent.created''\<rparr>)) demoWorld
     = ((200, ''ok''), demoWorld) \<and>
   \<not> truthy (ss_orderId (demoSession\<lparr>ss_orderId := None\<rparr>)) \<and>
   stripeWebhook throwingStore
       (Inr (demoEvent\<lparr>ev_data := Data (Some (demoSession\<lparr>ss_orderId := None\<rparr>))\<rparr>)) demoWorld
     = ((200, ''ok''), demoWorld) \<and>
   stripeWebhook specStore (Inr (demoEvent\<lparr>ev_data := Data (Some demoSession)\<rparr>)) demoWorld
     = ((200, ''ok''), demoWorld) \<and>
   stripeWebhook specStore (Inr (demoEvent\<lparr>ev_data := NoData\<rparr>)) demoWorld
     = ((200, ''ok''), demoWorld\<lparr>logged := [TypeError]\<rparr>)"
proof -
  have t: "isCryptomusWebhookTrusted demoSigner q demoEnvNoKey" for q
    by (simp add: isCryptomusWebhookTrusted_def demoEnvNoKey_def)
  have s1: "statusOf (demoPayload\<lparr>cp_status := Some ''confirm_check''\<rparr>) \<notin> set paidStatuses"
    by (simp add: statusOf_def paidStatuses_def string_evals)
  have s2: "statusOf (demoPayload\<lparr>cp_order_id := Some ''ord-9''\<rparr>) \<in> set paidStatuses"
    using demo_status by (simp add: statusOf_def paidStatuses_def)
  have th: "cryptomusTry throwingStore demoSigner demoEnvNoKey demoPayload demoWorld
     = (Inl (Thrown ''EACCES''), demoWorld)"
    using t [of demoPayload] demo_status
    by (simp add: cryptomusTry_def cryptomusProcess_def demo_payload_facts paidStatuses_def
        confirmOrder_def throwingStore_def)
  have n: "\<not> truthy (cp_order_id (demoPayload\<lparr>cp_order_id := None\<rparr>))"
    "truthy (cp_order_id (demoPayload\<lparr>cp_status := Some ''confirm_check''\<rparr>))"
    by (simp_all add: truthy_def demo_payload_facts)
  have u: "orders demoWorld ''ord-9'' = None" by (simp add: demoWorld_def)
  have l: "logged demoWorld = []" by (simp add: demoWorld_def)
  have st: "stripeTry specStore (Inl (Thrown ''bad signature'')) demoWorld
     = (Inl (Thrown ''bad signature''), demoWorld)"
    by (simp add: stripeTry_def)
  have a: "cryptomusWebhook throwingStore demoSigner demoEnvNoKey demoPayload demoWorld
     = ((200, ''ok''), demoWorld\<lparr>logged := [Thrown ''EACCES'']\<rparr>)"
    using webhooks_always_acknowledge [where api = throwingStore and sg = demoSigner
        and e = demoEnvNoKey and p = demoPayload and w = demoWorld and ?w1.0 = demoWorld
        and ex = "Thrown ''EACCES''"] th l
    by simp
  have b: "cryptomusWebhook specStore demoSigner demoEnvNoKey (demoPayload\<lparr>cp_order_id := None\<rparr>) demoWorld
     = ((200, ''no order''), demoWorld)"
    using webhooks_always_acknowledge [where api = specStore and sg = demoSigner
        and e = demoEnvNoKey and p = "demoPayload\<lparr>cp_order_id := None\<rparr>" and w = demoWorld] t n
    by blast
  have c: "cryptomusWebhook specStore demoSigner demoEnvNoKey
       (demoPayload\<lparr>cp_status := Some ''confirm_check''\<rparr>) demoWorld
     = ((200, ''not paid''), demoWorld)"
    using webhooks_always_acknowledge [where api = specStore and sg = demoSigner
        and e = demoEnvNoKey and p = "demoPayload\<lparr>cp_status := Some ''confirm_check''\<rparr>"
        and w = demoWorld] t n s1
    by blast
  have d: "cryptomusWebhook specStore demoSigner demoEnvNoKey
       (demoPayload\<lparr>cp_order_id := Some ''ord-9''\<rparr>) demoWorld
     = ((200, ''ok''), demoWorld)"
    using webhooks_always_acknowledge [where api = specStore and sg = demoSigner
        and e = demoEnvNoKey and p = "demoPayload\<lparr>cp_order_id := Some ''ord-9''\<rparr>"
        and w = demoWorld and oid = "''ord-9''" and ?w1.0 = demoWorld
        and info = "cryptomusInfo (demoPayload\<lparr>cp_order_id := Some ''ord-9''\<rparr>)"] t s2 u
    by simp
  have e: "stripeWebhook specStore (Inl (Thrown ''bad signature'')) demoWorld
     = ((200, ''ok''), demoWorld\<lparr>logged := [Thrown ''bad signature'']\<rparr>)"
    using webhooks_always_acknowledge [where api = specStore
        and decoded = "Inl (Thrown ''bad signature'')" and w = demoWorld and ?w1.0 = demoWorld
        and ex = "Thrown ''bad signature''"] st l
    by simp
  have f: "stripeWebhook throwingStore (Inr (demoEvent\<lparr>ev_type := ''payment_intent.created''\<rparr>)) demoWorld
     = ((200, ''ok''), demoWorld)"
    using webhooks_always_acknowledge [where api = throwingStore
        and ev = "demoEvent\<lparr>ev_type := ''payment_intent.created''\<rparr>" and w = demoWorld]
    by simp
  have g0: "\<not> truthy (ss_orderId (demoSession\<lparr>ss_orderId := None\<rparr>))"
    by (simp add: truthy_def)
  have g: "stripeWebhook throwingStore
       (Inr (demoEvent\<lparr>ev_data := Data (Some (demoSession\<lparr>ss_orderId := None\<rparr>))\<rparr>)) demoWorld
     = ((200, ''ok''), demoWorld)"
    using webhooks_always_acknowledge [where api = throwingStore
        and ev = "demoEvent\<lparr>ev_data := Data (Some (demoSession\<lparr>ss_orderId := None\<rparr>))\<rparr>"
        and s = "demoSession\<lparr>ss_orderId := None\<rparr>" and w = demoWorld] g0
    by simp
  have h: "stripeWebhook specStore (Inr (demoEvent\<lparr>ev_data := Data (Some demoSession)\<rparr>)) demoWorld
     = ((200, ''ok''), demoWorld)"
    using webhooks_always_acknowledge [where api = specStore
        and ev = "demoEvent\<lparr>ev_data := Data (Some demoSession)\<rparr>" and s = demoSession
        and w = demoWorld and oid = "''ord-9''" and ?w1.0 = demoWorld
        and info = "stripeInfo demoSession"] u
    by (simp add: demoEvent_def demoSession_def)
  have nd: "stripeTry specStore (Inr (demoEvent\<lparr>ev_data := NoData\<rparr>)) demoWorld
     = (Inl TypeError, demoWorld)"
    by (simp add: stripeTry_def demoEvent_def)
  have j: "stripeWebhook specStore (Inr (demoEvent\<lparr>ev_data := NoData\<rparr>)) demoWorld
     = ((200, ''ok''), demoWorld\<lparr>logged := [TypeError]\<rparr>)"
    using webhooks_always_acknowledge [where api = specStore
        and decoded = "Inr (demoEvent\<lparr>ev_data := NoData\<rparr>)" and w = demoWorld
        and ?w1.0 = demoWorld and ex = TypeError] nd l
    by simp
  show ?thesis using t [of demoPayload] th a n(1) b s1 c u d st e f g0 g h j by blast
qed

theorem cryptomus_open_without_api_key_witness:
  "(CRYPTOMUS_API_KEY demoEnvNoKey = None \<or> CRYPTOMUS_API_KEY demoEnvNoKey = Some []) \<and>
   cp_sign demoPayload = None \<and>
   isCryptomusWebhookTrusted demoSigner demoPayload demoEnvNoKey \<and>
   cryptomusTry specStore demoSigner demoEnvNoKey demoPayload demoWorld
     = cryptomusProcess specStore demoPayload demoWorld \<and>
   orders (snd (cryptomusWebhook specStore demoSigner demoEnvNoKey demoPayload demoWorld)) ''ord-1''
     = Some demoPaidOrder \<and>
   \<not> isCryptomusWebhookTrusted demoSigner demoPayload demoEnvKey"
proof -
  have k: "CRYPTOMUS_API_KEY demoEnvNoKey = None \<or> CRYPTOMUS_API_KEY demoEnvNoKey = Some []"
    by (simp add: demoEnvNoKey_def)
  have o: "orders (snd (cryptomusWebhook specStore demoSigner demoEnvNoKey demoPayload demoWorld)) ''ord-1''
     = Some demoPaidOrder"
    using demo_first by (simp add: demoCryptomus_def)
  have n: "\<not> isCryptomusWebhookTrusted demoSigner demoPayload demoEnvKey"
    by (simp add: isCryptomusWebhookTrusted_def demoEnvKey_def demo_payload_facts)
  show ?thesis
    using cryptomus_open_without_api_key [OF k, of demoSigner demoPayload specStore demoWorld]
      k demo_payload_facts(2) o n
    by simp
qed

theorem cryptomus_paid_statuses_witness:
  "isCryptomusWebhookTrusted demoSigner demoPayload demoEnvNoKey \<and>
   cp_order_id demoPayload = Some ''ord-1'' \<and> cp_status demoPayload = Some ''PAID_PARTIAL'' \<and>
   statusOf demoPayload = ''paid_partial'' \<and>
   orders demoWorld ''ord-1'' = Some demoOrder \<and> status demoOrder = Pending \<and>
   order_id demoOrder = ''ord-1'' \<and> hasCouponCode demoOrder \<and>
   \<not> couponUsedMarked (pricing demoOrder) \<and>
   fst (cryptomusWebhook specStore demoSigner demoEnvNoKey demoPayload demoWorld) = (200, ''ok'') \<and>
   coupons (snd (cryptomusWebhook specStore demoSigner demoEnvNoKey demoPayload demoWorld))
     = [demoCoupon\<lparr>uses := 1\<rparr>] \<and>
   orders (snd (cryptomusWebhook specStore demoSigner demoEnvNoKey demoPayload demoWorld)) ''ord-1''
     = Some demoPaidOrder \<and> status demoPaidOrder = Paid \<and>
   statusOf (demoPayload\<lparr>cp_status := Some ''confirm_check''\<rparr>)
     \<notin> {''paid'', ''paid_over'', ''paid_partial''} \<and>
   cryptomusWebhook throwingStore demoSigner demoEnvNoKey
       (demoPayload\<lparr>cp_status := Some ''confirm_check''\<rparr>) demoWorld
     = ((200, ''not paid''), demoWorld)"
proof -
  have t: "isCryptomusWebhookTrusted demoSigner q demoEnvNoKey" for q
    by (simp add: isCryptomusWebhookTrusted_def demoEnvNoKey_def)
  have c: "cp_status demoPayload = Some ''PAID_PARTIAL''"
    "cp_order_id (demoPayload\<lparr>cp_status := Some ''confirm_check''\<rparr>) = Some ''ord-1''"
    by (simp_all add: demoPayload_def)
  have s1: "statusOf (demoPayload\<lparr>cp_status := Some ''confirm_check''\<rparr>)
     \<notin> {''paid'', ''paid_over'', ''paid_partial''}"
    by (simp add: statusOf_def string_evals)
  have i: "incrementCouponUse ''SAVE10'' [demoCoupon] = (True, [demoCoupon\<lparr>uses := 1\<rparr>])"
    by (simp add: incrementCouponUse_def demoCoupon_def string_evals)
  have p: "status demoPaidOrder = Paid"
    by (simp add: demoPaidOrder_def markedOrder_def paidOrder_def)
  have o: "orders (snd (cryptomusWebhook specStore demoSigner demoEnvNoKey demoPayload demoWorld)) ''ord-1''
     = Some demoPaidOrder"
    using demo_first by (simp add: demoCryptomus_def)
  have a: "fst (cryptomusWebhook specStore demoSigner demoEnvNoKey demoPayload demoWorld) = (200, ''ok'')"
    "coupons (snd (cryptomusWebhook specStore demoSigner demoEnvNoKey demoPayload demoWorld))
     = [demoCoupon\<lparr>uses := 1\<rparr>]"
    using cryptomus_paid_statuses [OF t [of demoPayload] demo_payload_facts(1),
        where w = demoWorld and ord = demoOrder] demo_status demo_order_facts i
    by simp_all
  have b: "cryptomusWebhook throwingStore demoSigner demoEnvNoKey
       (demoPayload\<lparr>cp_status := Some ''confirm_check''\<rparr>) demoWorld
     = ((200, ''not paid''), demoWorld)"
    using cryptomus_paid_statuses [OF t [of "demoPayload\<lparr>cp_status := Some ''confirm_check''\<rparr>"] c(2),
        where api = throwingStore and w = demoWorld] s1
    by simp
  show ?thesis
    using t [of demoPayload] demo_payload_facts(1) c(1) demo_status demo_order_facts(1-5) a o p s1 b
    by blast
qed


section \<open>Pending coupons and product selection\<close>

lemma findCoupon_code:
  assumes "findCoupon t arr = Some cp"
  shows "findCoupon (code cp) arr = Some cp \<and> code cp \<noteq> []"
proof -
  from assms have t: "t \<noteq> []" by (auto simp: findCoupon_def split: if_splits)
  from assms t have f: "find (\<lambda>x. toLowerCase (code x) = toLowerCase t) arr = Some cp"
    and u: "active cp" "\<not> (maxUses cp > 0 \<and> uses cp \<ge> maxUses cp)"
    by (auto simp: findCoupon_def split: option.splits if_splits)
  from f have l: "toLowerCase (code cp) = toLowerCase t"
    by (auto simp: find_Some_iff)
  with t have n: "code cp \<noteq> []" by (auto simp: toLowerCase_def)
  show ?thesis using f u n by (simp add: findCoupon_def l)
qed

lemma findCoupon_same_code:
  assumes "findCoupon t arr = Some cp"
  shows "sameCodeIgnoringCase (code cp) t"
proof -
  from assms have t: "t \<noteq> []" by (auto simp: findCoupon_def split: if_splits)
  from assms t have "find (\<lambda>x. toLowerCase (code x) = toLowerCase t) arr = Some cp"
    by (auto simp: findCoupon_def split: option.splits if_splits)
  then obtain k where "cp = arr ! k" "toLowerCase (code (arr ! k)) = toLowerCase t"
    unfolding find_Some_iff by blast
  then show ?thesis unfolding sameCodeIgnoringCase_def by simp
qed

lemma normalised_same_code:
  assumes "sameCodeIgnoringCase a b" "toUpperCase a = a" "toUpperCase b = b"
  shows "a = b"
proof -
  from assms(1) have "toUpperCase a = toUpperCase b"
    by (simp add: sameCodeIgnoringCase_def upper_eq_iff_lower_eq)
  then show ?thesis unfolding assms(2,3) .
qed

lemma modal_saves:
  assumes "findCoupon (trim typed) (coupons w) = Some cp"
  shows "couponModalSubmit typed ch w =
           (True, w\<lparr>pendingCoupons := (pendingCoupons w)(ch \<mapsto>
                      \<lparr>pc_code = code cp, pc_kind = kind cp, pc_val = val cp,
                       pc_maxUses = maxUses cp\<rparr>)\<rparr>)"
  using assms by (simp add: couponModalSubmit_def setPendingCoupon_def)

lemma choose_with_pending:
  assumes "take 12 (i_customId i) = ''choose_prod:''"
    "find (\<lambda>p. Some (prod_id p) = secondPart (i_customId i)) products = Some prd"
    "pendingCoupons w (i_channelId i) = Some pend" "pc_code pend \<noteq> []"
  shows "chooseProd specStore products newId now i w =
           (case findCoupon (pc_code pend) (coupons w) of
              Some cp \<Rightarrow>
                (OrderCreated ((newOrder newId now i prd)\<lparr>pricing := couponPricing prd cp\<rparr>),
                 upsertOrder ((newOrder newId now i prd)\<lparr>pricing := couponPricing prd cp\<rparr>)
                   (w\<lparr>pendingCoupons := (pendingCoupons w)(i_channelId i := None)\<rparr>))
            | None \<Rightarrow>
                (OrderCreated (newOrder newId now i prd),
                 upsertOrder (newOrder newId now i prd)
                   (w\<lparr>pendingCoupons := (pendingCoupons w)(i_channelId i := None)\<rparr>)))"
  using assms
  by (simp add: chooseProd_def getPendingCoupon_def clearPendingCoupon_def specStore_simps Let_def
      split: option.split)

lemma choose_without_pending:
  assumes "take 12 (i_customId i) = ''choose_prod:''"
    "find (\<lambda>p. Some (prod_id p) = secondPart (i_customId i)) products = Some prd"
    "pendingCoupons w (i_channelId i) = None"
  shows "chooseProd specStore products newId now i w =
           (OrderCreated (newOrder newId now i prd), upsertOrder (newOrder newId now i prd) w)"
  using assms
  by (simp add: chooseProd_def getPendingCoupon_def specStore_simps Let_def)

lemma newOrder_facts:
  "pr_coupon (pricing (newOrder newId now i prd)) = None"
  "order_id (newOrder newId now i prd) = newId"
  "status (newOrder newId now i prd) = Pending"
  by (simp_all add: newOrder_def)

lemma couponPricing_code: "map_option oc_code (pr_coupon (couponPricing prd cp)) = Some (code cp)"
  by (simp add: couponPricing_def Let_def)

text \<open>
  C4. For product buttons of existing products pressed in a channel: after a valid coupon
  code was submitted there, the first selection creates an order whose coupon snapshot has
  the code of the pending coupon and removes the channel's pending coupon, and a second
  selection creates an order without a coupon. A pending coupon (its code is never empty
  when the modal saved it) is removed by a selection also when its code no longer finds a
  usable coupon, and the order then has no coupon; when its code finds one, the order
  carries that coupon's code, which is the pending code up to case and the pending code
  itself when both are upper-case, as \<open>addCoupon\<close> stores them.
\<close>

theorem pending_coupon_consumed_once:
  assumes "take 12 (i_customId i1) = ''choose_prod:''"
    "find (\<lambda>p. Some (prod_id p) = secondPart (i_customId i1)) products = Some prd1"
    "i_channelId i1 = ch"
    "take 12 (i_customId i2) = ''choose_prod:''"
    "find (\<lambda>p. Some (prod_id p) = secondPart (i_customId i2)) products = Some prd2"
    "i_channelId i2 = ch"
  shows "(findCoupon (trim typed) (coupons w) = Some cp \<longrightarrow>
            pendingCoupons (snd (couponModalSubmit typed ch w)) ch
              = Some \<lparr>pc_code = code cp, pc_kind = kind cp, pc_val = val cp,
                      pc_maxUses = maxUses cp\<rparr> \<and>
            code cp \<noteq> [] \<and>
            (\<exists>o1. fst (chooseProd specStore products id1 now1 i1 (snd (couponModalSubmit typed ch w)))
                     = OrderCreated o1 \<and>
                   map_option oc_code (pr_coupon (pricing o1)) = Some (code cp) \<and>
                   pricing o1 = couponPricing prd1 cp \<and>
                   orders (snd (chooseProd specStore products id1 now1 i1
                                  (snd (couponModalSubmit typed ch w)))) id1 = Some o1) \<and>
            pendingCoupons (snd (chooseProd specStore products id1 now1 i1
                                   (snd (couponModalSubmit typed ch w)))) ch = None \<and>
            (\<exists>o2. fst (chooseProd specStore products id2 now2 i2
                         (snd (chooseProd specStore products id1 now1 i1
                                 (snd (couponModalSubmit typed ch w)))))
                     = OrderCreated o2 \<and>
                   pr_coupon (pricing o2) = None) \<and>
            pendingCoupons (snd (chooseProd specStore products id2 now2 i2
                                   (snd (chooseProd specStore products id1 now1 i1
                                           (snd (couponModalSubmit typed ch w)))))) ch = None) \<and>
         (pendingCoupons w ch = Some pend \<and> pc_code pend \<noteq> [] \<longrightarrow>
            pendingCoupons (snd (chooseProd specStore products id1 now1 i1 w)) ch = None \<and>
            (findCoupon (pc_code pend) (coupons w) = None \<longrightarrow>
               (\<exists>o1. fst (chooseProd specStore products id1 now1 i1 w) = OrderCreated o1 \<and>
                      pr_coupon (pricing o1) = None)) \<and>
            (findCoupon (pc_code pend) (coupons w) = Some found \<longrightarrow>
               (\<exists>o1. fst (chooseProd specStore products id1 now1 i1 w) = OrderCreated o1 \<and>
                      map_option oc_code (pr_coupon (pricing o1)) = Some (code found)) \<and>
               sameCodeIgnoringCase (code found) (pc_code pend) \<and>
               (toUpperCase (code found) = code found \<and>
                toUpperCase (pc_code pend) = pc_code pend \<longrightarrow> code found = pc_code pend)))"
proof -
  have A: "pendingCoupons (snd (couponModalSubmit typed ch w)) ch
              = Some \<lparr>pc_code = code cp, pc_kind = kind cp, pc_val = val cp,
                      pc_maxUses = maxUses cp\<rparr> \<and>
            code cp \<noteq> [] \<and>
            (\<exists>o1. fst (chooseProd specStore products id1 now1 i1 (snd (couponModalSubmit typed ch w)))
                     = OrderCreated o1 \<and>
                   map_option oc_code (pr_coupon (pricing o1)) = Some (code cp) \<and>
                   pricing o1 = couponPricing prd1 cp \<and>
                   orders (snd (chooseProd specStore products id1 now1 i1
                                  (snd (couponModalSubmit typed ch w)))) id1 = Some o1) \<and>
            pendingCoupons (snd (chooseProd specStore products id1 now1 i1
                                   (snd (couponModalSubmit typed ch w)))) ch = None \<and>
            (\<exists>o2. fst (chooseProd specStore products id2 now2 i2
                         (snd (chooseProd specStore products id1 now1 i1
                                 (snd (couponModalSubmit typed ch w)))))
                     = OrderCreated o2 \<and>
                   pr_coupon (pricing o2) = None) \<and>
            pendingCoupons (snd (chooseProd specStore products id2 now2 i2
                                   (snd (chooseProd specStore products id1 now1 i1
                                           (snd (couponModalSubmit typed ch w)))))) ch = None"
    if v: "findCoupon (trim typed) (coupons w) = Some cp"
  proof -
    let ?pc = "\<lparr>pc_code = code cp, pc_kind = kind cp, pc_val = val cp, pc_maxUses = maxUses cp\<rparr>"
    let ?w1 = "w\<lparr>pendingCoupons := (pendingCoupons w)(ch \<mapsto> ?pc)\<rparr>"
    let ?o1 = "(newOrder id1 now1 i1 prd1)\<lparr>pricing := couponPricing prd1 cp\<rparr>"
    let ?w2 = "upsertOrder ?o1 (?w1\<lparr>pendingCoupons := (pendingCoupons ?w1)(ch := None)\<rparr>)"
    have m: "snd (couponModalSubmit typed ch w) = ?w1"
      by (simp add: modal_saves [OF v])
    have c: "findCoupon (code cp) (coupons ?w1) = Some cp" "code cp \<noteq> []"
      using findCoupon_code [OF v] by simp_all
    have p1: "pendingCoupons ?w1 (i_channelId i1) = Some ?pc" "pc_code ?pc \<noteq> []"
      using assms(3) c(2) by simp_all
    have s1: "chooseProd specStore products id1 now1 i1 ?w1 = (OrderCreated ?o1, ?w2)"
      using choose_with_pending [OF assms(1,2) p1, of id1 now1] c(1) assms(3) by simp
    have p2: "pendingCoupons ?w2 (i_channelId i2) = None"
      using assms(6) by (simp add: upsertOrder_def)
    have s2: "chooseProd specStore products id2 now2 i2 ?w2
                = (OrderCreated (newOrder id2 now2 i2 prd2), upsertOrder (newOrder id2 now2 i2 prd2) ?w2)"
      by (rule choose_without_pending [OF assms(4,5) p2])
    have o1: "map_option oc_code (pr_coupon (pricing ?o1)) = Some (code cp)"
      "pricing ?o1 = couponPricing prd1 cp" "orders ?w2 id1 = Some ?o1"
      by (simp_all add: couponPricing_code upsertOrder_def newOrder_facts)
    have q: "pendingCoupons ?w1 ch = Some ?pc" "pendingCoupons ?w2 ch = None"
      "pendingCoupons (upsertOrder (newOrder id2 now2 i2 prd2) ?w2) ch = None"
      by (simp_all add: upsertOrder_def)
    show ?thesis
      unfolding m s1 s2 fst_conv snd_conv using c(2) o1 q newOrder_facts(1) [of id2 now2 i2 prd2]
      by blast
  qed
  have B: "pendingCoupons (snd (chooseProd specStore products id1 now1 i1 w)) ch = None \<and>
            (findCoupon (pc_code pend) (coupons w) = None \<longrightarrow>
               (\<exists>o1. fst (chooseProd specStore products id1 now1 i1 w) = OrderCreated o1 \<and>
                      pr_coupon (pricing o1) = None)) \<and>
            (findCoupon (pc_code pend) (coupons w) = Some found \<longrightarrow>
               (\<exists>o1. fst (chooseProd specStore products id1 now1 i1 w) = OrderCreated o1 \<and>
                      map_option oc_code (pr_coupon (pricing o1)) = Some (code found)) \<and>
               sameCodeIgnoringCase (code found) (pc_code pend) \<and>
               (toUpperCase (code found) = code found \<and>
                toUpperCase (pc_code pend) = pc_code pend \<longrightarrow> code found = pc_code pend))"
    if "pendingCoupons w ch = Some pend" "pc_code pend \<noteq> []"
  proof -
    have p: "pendingCoupons w (i_channelId i1) = Some pend" using that(1) assms(3) by simp
    have c: "pendingCoupons (snd (chooseProd specStore products id1 now1 i1 w)) ch = None"
      unfolding choose_with_pending [OF assms(1,2) p that(2)] using assms(3)
      by (simp add: upsertOrder_def split: option.split)
    have n: "\<exists>o1. fst (chooseProd specStore products id1 now1 i1 w) = OrderCreated o1 \<and>
                      pr_coupon (pricing o1) = None"
      if "findCoupon (pc_code pend) (coupons w) = None"
      unfolding choose_with_pending [OF assms(1,2) p \<open>pc_code pend \<noteq> []\<close>] using that
      by (simp add: newOrder_facts)
    have f: "(\<exists>o1. fst (chooseProd specStore products id1 now1 i1 w) = OrderCreated o1 \<and>
                      map_option oc_code (pr_coupon (pricing o1)) = Some (code found)) \<and>
               sameCodeIgnoringCase (code found) (pc_code pend) \<and>
               (toUpperCase (code found) = code found \<and>
                toUpperCase (pc_code pend) = pc_code pend \<longrightarrow> code found = pc_code pend)"
      if h: "findCoupon (pc_code pend) (coupons w) = Some found"
    proof -
      have o: "\<exists>o1. fst (chooseProd specStore products id1 now1 i1 w) = OrderCreated o1 \<and>
                      map_option oc_code (pr_coupon (pricing o1)) = Some (code found)"
        unfolding choose_with_pending [OF assms(1,2) p \<open>pc_code pend \<noteq> []\<close>] using h
        by (simp add: couponPricing_def Let_def)
      show ?thesis
        using o findCoupon_same_code [OF h] normalised_same_code [of "code found" "pc_code pend"]
        by blast
    qed
    show ?thesis using c n f by blast
  qed
  show ?thesis using A B by blast
qed

lemma demo_clicks:
  "take 12 (i_customId (demoClick ''p1'')) = ''choose_prod:''"
  "take 12 (i_customId (demoClick ''p2'')) = ''choose_prod:''"
  "find (\<lambda>p. Some (prod_id p) = secondPart (i_customId (demoClick ''p1''))) demoProducts
     = Some \<lparr>prod_id = ''p1'', prod_name = ''Gold'', prod_price = 20\<rparr>"
  "find (\<lambda>p. Some (prod_id p) = secondPart (i_customId (demoClick ''p2''))) demoProducts
     = Some \<lparr>prod_id = ''p2'', prod_name = ''Silver'', prod_price = 5\<rparr>"
  "i_channelId (demoClick ''p1'') = ''ch-1''" "i_channelId (demoClick ''p2'') = ''ch-1''"
  by (simp_all add: demoClick_def demoProducts_def secondPart_def)

lemma demo_typed: "findCoupon (trim '' save10 '') (coupons demoEmptyWorld) = Some demoCoupon"
  by (simp add: findCoupon_def demoEmptyWorld_def demoCoupon_def string_evals)

lemma demo_coupon_pricing:
  "(newOrder ''ord-1'' ''2024-05-05T10:00:00.000Z'' (demoClick ''p1'')
      \<lparr>prod_id = ''p1'', prod_name = ''Gold'', prod_price = 20\<rparr>)
     \<lparr>pricing := couponPricing \<lparr>prod_id = ''p1'', prod_name = ''Gold'', prod_price = 20\<rparr> demoCoupon\<rparr>
   = demoOrder"
  by (simp add: newOrder_def couponPricing_def applyCouponToAmount_def fixedDiscount_def
      demoCoupon_def demoOrder_def demoClick_def double_values fixed2_values)

theorem pending_coupon_consumed_once_witness:
  "take 12 (i_customId (demoClick ''p1'')) = ''choose_prod:'' \<and>
   take 12 (i_customId (demoClick ''p2'')) = ''choose_prod:'' \<and>
   find (\<lambda>p. Some (prod_id p) = secondPart (i_customId (demoClick ''p1''))) demoProducts
     = Some \<lparr>prod_id = ''p1'', prod_name = ''Gold'', prod_price = 20\<rparr> \<and>
   find (\<lambda>p. Some (prod_id p) = secondPart (i_customId (demoClick ''p2''))) demoProducts
     = Some \<lparr>prod_id = ''p2'', prod_name = ''Silver'', prod_price = 5\<rparr> \<and>
   findCoupon (trim '' save10 '') (coupons demoEmptyWorld) = Some demoCoupon \<and>
   pendingCoupons (snd (couponModalSubmit '' save10 '' ''ch-1'' demoEmptyWorld)) ''ch-1''
     = Some \<lparr>pc_code = ''SAVE10'', pc_kind = ''fixed'', pc_val = 10, pc_maxUses = 1\<rparr> \<and>
   fst (chooseProd specStore demoProducts ''ord-1'' ''2024-05-05T10:00:00.000Z'' (demoClick ''p1'')
          (snd (couponModalSubmit '' save10 '' ''ch-1'' demoEmptyWorld)))
     = OrderCreated demoOrder \<and>
   map_option oc_code (pr_coupon (pricing demoOrder)) = Some ''SAVE10'' \<and>
   pendingCoupons
     (snd (chooseProd specStore demoProducts ''ord-1'' ''2024-05-05T10:00:00.000Z'' (demoClick ''p1'')
             (snd (couponModalSubmit '' save10 '' ''ch-1'' demoEmptyWorld)))) ''ch-1'' = None \<and>
   (\<exists>o2. fst (chooseProd specStore demoProducts ''ord-2'' ''2024-05-05T10:01:00.000Z'' (demoClick ''p2'')
                (snd (chooseProd specStore demoProducts ''ord-1'' ''2024-05-05T10:00:00.000Z''
                        (demoClick ''p1'')
                        (snd (couponModalSubmit '' save10 '' ''ch-1'' demoEmptyWorld)))))
            = OrderCreated o2 \<and> pr_coupon (pricing o2) = None) \<and>
   pendingCoupons demoStaleWorld ''ch-1''
     = Some \<lparr>pc_code = ''GONE'', pc_kind = ''percent'', pc_val = 15, pc_maxUses = 0\<rparr> \<and>
   findCoupon ''GONE'' (coupons demoStaleWorld) = None \<and>
   pendingCoupons
     (snd (chooseProd specStore demoProducts ''ord-3'' ''2024-05-05T10:02:00.000Z'' (demoClick ''p1'')
             demoStaleWorld)) ''ch-1'' = None \<and>
   (\<exists>o3. fst (chooseProd specStore demoProducts ''ord-3'' ''2024-05-05T10:02:00.000Z''
                (demoClick ''p1'') demoStaleWorld) = OrderCreated o3 \<and>
          pr_coupon (pricing o3) = None) \<and>
   findCoupon ''SAVE10'' (coupons (snd (couponModalSubmit '' save10 '' ''ch-1'' demoEmptyWorld)))
     = Some demoCoupon \<and>
   toUpperCase (code demoCoupon) = code demoCoupon \<and> toUpperCase ''SAVE10'' = ''SAVE10'' \<and>
   code demoCoupon = ''SAVE10''"
proof -
  let ?w1 = "snd (couponModalSubmit '' save10 '' ''ch-1'' demoEmptyWorld)"
  note T = pending_coupon_consumed_once [OF demo_clicks(1,3,5) demo_clicks(2,4,6),
      where typed = "'' save10 ''" and w = demoEmptyWorld and cp = demoCoupon
        and ?id1.0 = "''ord-1''" and ?now1.0 = "''2024-05-05T10:00:00.000Z''"
        and ?id2.0 = "''ord-2''" and ?now2.0 = "''2024-05-05T10:01:00.000Z''"]
  have c: "code demoCoupon = ''SAVE10''" "kind demoCoupon = ''fixed''" "val demoCoupon = 10"
    "maxUses demoCoupon = 1"
    by (simp_all add: demoCoupon_def)
  have p: "pendingCoupons ?w1 ''ch-1''
     = Some \<lparr>pc_code = ''SAVE10'', pc_kind = ''fixed'', pc_val = 10, pc_maxUses = 1\<rparr>"
    using T demo_typed c by simp
  have w1: "?w1 = demoEmptyWorld\<lparr>pendingCoupons := (pendingCoupons demoEmptyWorld)(''ch-1'' \<mapsto>
                      \<lparr>pc_code = code demoCoupon, pc_kind = kind demoCoupon, pc_val = val demoCoupon,
                       pc_maxUses = maxUses demoCoupon\<rparr>)\<rparr>"
    by (simp add: modal_saves [OF demo_typed])
  have f: "findCoupon ''SAVE10'' (coupons ?w1) = Some demoCoupon"
    unfolding w1 using findCoupon_code [OF demo_typed] c(1) by simp
  have e: "fst (chooseProd specStore demoProducts ''ord-1'' ''2024-05-05T10:00:00.000Z''
                  (demoClick ''p1'') ?w1) = OrderCreated demoOrder"
    using choose_with_pending [OF demo_clicks(1,3), of ?w1
        "\<lparr>pc_code = ''SAVE10'', pc_kind = ''fixed'', pc_val = 10, pc_maxUses = 1\<rparr>"
        "''ord-1''" "''2024-05-05T10:00:00.000Z''"] p f demo_clicks(5)
    by (simp add: demo_coupon_pricing)
  have m: "map_option oc_code (pr_coupon (pricing demoOrder)) = Some ''SAVE10''"
    by (simp add: demoOrder_def)
  have sp: "pendingCoupons demoStaleWorld ''ch-1''
     = Some \<lparr>pc_code = ''GONE'', pc_kind = ''percent'', pc_val = 15, pc_maxUses = 0\<rparr>"
    by (simp add: demoStaleWorld_def)
  have sf: "findCoupon ''GONE'' (coupons demoStaleWorld) = None"
    by (simp add: findCoupon_def demoStaleWorld_def demoEmptyWorld_def demoCoupon_def string_evals)
  have st: "pendingCoupons
     (snd (chooseProd specStore demoProducts ''ord-3'' ''2024-05-05T10:02:00.000Z'' (demoClick ''p1'')
             demoStaleWorld)) ''ch-1'' = None \<and>
   (\<exists>o3. fst (chooseProd specStore demoProducts ''ord-3'' ''2024-05-05T10:02:00.000Z''
                (demoClick ''p1'') demoStaleWorld) = OrderCreated o3 \<and>
          pr_coupon (pricing o3) = None)"
    using pending_coupon_consumed_once [OF demo_clicks(1,3,5) demo_clicks(2,4,6),
      where w = demoStaleWorld
        and pend = "\<lparr>pc_code = ''GONE'', pc_kind = ''percent'', pc_val = 15, pc_maxUses = 0\<rparr>"
        and ?id1.0 = "''ord-3''" and ?now1.0 = "''2024-05-05T10:02:00.000Z''"] sp sf
    by simp
  have up: "toUpperCase (code demoCoupon) = code demoCoupon" "toUpperCase ''SAVE10'' = ''SAVE10''"
    by (simp_all add: demoCoupon_def string_evals)
  have eq: "code demoCoupon = ''SAVE10''"
    using pending_coupon_consumed_once [OF demo_clicks(1,3,5) demo_clicks(2,4,6),
      where w = ?w1 and found = demoCoupon
        and pend = "\<lparr>pc_code = ''SAVE10'', pc_kind = ''fixed'', pc_val = 10, pc_maxUses = 1\<rparr>"]
      p f up
    by simp
  show ?thesis
    using T demo_typed demo_clicks(1-4) p e m sp sf st f up eq by blast
qed

end
